theory Spec2Isabelle
  imports Complex_Main "HOL-Library.Signed_Division"
begin

unbundle bit_operations_syntax

section \<open>Data model\<close>

text \<open>
  The C++ sources work on \<^verbatim>\<open>float\<close> and \<^verbatim>\<open>int\<close>. The properties verified here
  are the exact-arithmetic ones, so a \<^verbatim>\<open>float\<close> is modelled as a \<^typ>\<open>real\<close> and an
  \<^verbatim>\<open>int\<close> as an unbounded \<^typ>\<open>int\<close> (rounding, NaN and 32-bit overflow are outside
  the model). A C array passed by pointer (\<^verbatim>\<open>pos[]\<close>, \<^verbatim>\<open>gradient[]\<close>,
  \<^verbatim>\<open>coordinate[]\<close>) is a list that the caller provides with at least
  \<^verbatim>\<open>num_dim\<close> entries.
\<close>

text \<open>\<^verbatim>\<open>struct Triplet { int row, col; float value; }\<close> of sparse_linear.hpp.\<close>

record Triplet =
  row :: int
  col :: int
  val :: real

text \<open>
  Modelled from the spec: the header field_interpolation.hpp, which declares
  \<^verbatim>\<open>LinearEquation\<close>, \<^verbatim>\<open>LatticeField\<close>, \<^verbatim>\<open>Weights\<close>, \<^verbatim>\<open>GradientKernel\<close> and
  \<^verbatim>\<open>MAX_DIM\<close>, is not part of the sources. The fields are the ones field_interpolation.cpp
  reads and writes; the constant and the stride rule are the ones of the specification
  (\<open>MAX_DIM = 4\<close>; \<open>strides[0] = 1\<close>, \<open>strides[d] = strides[d-1] * sizes[d-1]\<close>).
\<close>

record LinearEquation =
  triplets :: "Triplet list"
  rhs :: "real list"

record LatticeField =
  sizes :: "int list"
  strides :: "int list"
  eq :: LinearEquation

datatype GradientKernel = kNearestNeighbor | kCellEdges | kLinearInteprolation

record Weights =
  data_pos :: real
  data_gradient :: real
  model_0 :: real
  model_1 :: real
  model_2 :: real
  model_3 :: real
  model_4 :: real
  gradient_smoothness :: real
  gradient_kernel :: GradientKernel

definition MAX_DIM :: nat where
  "MAX_DIM = 4"

text \<open>
  Modelled from the spec: the constructor \<^verbatim>\<open>LatticeField{sizes}\<close> (row-major strides,
  dimension 0 fastest, and an empty linear system).
\<close>

fun strides_of :: "int list \<Rightarrow> int list" where
  "strides_of [] = []"
| "strides_of (s # ss) = 1 # map (\<lambda>x. x * s) (strides_of ss)"

definition empty_equation :: LinearEquation where
  "empty_equation = \<lparr>triplets = [], rhs = []\<rparr>"

definition new_field :: "int list \<Rightarrow> LatticeField" where
  "new_field szs = \<lparr>sizes = szs, strides = strides_of szs, eq = empty_equation\<rparr>"

section \<open>The append primitive\<close>

text \<open>
  \<^verbatim>\<open>add_equation\<close>: the loop over \<^verbatim>\<open>pairs\<close> carries the triplet vector and the flag
  \<^verbatim>\<open>all_zero\<close>; \<^verbatim>\<open>row\<close> is read once, before the loop.
\<close>

definition add_equation_step ::
  "int \<Rightarrow> real \<Rightarrow> Triplet list \<times> bool \<Rightarrow> int \<times> real \<Rightarrow> Triplet list \<times> bool" where
  "add_equation_step r weight acc pair =
     (if snd pair \<noteq> 0
      then (fst acc @ [\<lparr>row = r, col = fst pair, val = snd pair * weight\<rparr>], False)
      else acc)"

definition add_equation ::
  "LinearEquation \<Rightarrow> real \<Rightarrow> real \<Rightarrow> (int \<times> real) list \<Rightarrow> LinearEquation" where
  "add_equation e weight rhs_value pairs =
     (if weight = 0 then e
      else
        let r = int (length (rhs e));
            acc = foldl (add_equation_step r weight) (triplets e, True) pairs
        in if \<not> snd acc
           then \<lparr>triplets = fst acc, rhs = rhs e @ [rhs_value * weight]\<rparr>
           else \<lparr>triplets = fst acc, rhs = rhs e\<rparr>)"

section \<open>Multilinear interpolation\<close>

text \<open>
  \<^verbatim>\<open>multilerp\<close>. The inner loop over the dimensions carries \<^verbatim>\<open>index\<close>,
  \<^verbatim>\<open>weight\<close> and \<^verbatim>\<open>inside\<close>; the outer loop over the \<open>2^num_dim\<close> corners carries the
  samples written so far (\<^verbatim>\<open>out_indices\<close> and \<^verbatim>\<open>out_kernel\<close> zipped, \<^verbatim>\<open>num_samples\<close>
  being their length). \<^verbatim>\<open>CHECK_F\<close> aborts the process: the result is then \<open>None\<close>.
\<close>

definition multilerp_dim ::
  "LatticeField \<Rightarrow> int list \<Rightarrow> real list \<Rightarrow> int \<Rightarrow> nat
     \<Rightarrow> int \<times> real \<times> bool \<Rightarrow> nat \<Rightarrow> int \<times> real \<times> bool" where
  "multilerp_dim field floored t extra_bound i acc d =
     (case acc of (index, weight, inside) \<Rightarrow>
        let is_set = drop_bit d i AND 1;
            dim_coord = floored ! d + int is_set
        in (index + strides field ! d * dim_coord,
            weight * (if is_set \<noteq> 0 then t ! d else 1 - t ! d),
            inside \<and> (0 \<le> dim_coord \<and> dim_coord + extra_bound < sizes field ! d)))"

definition multilerp_corner ::
  "LatticeField \<Rightarrow> int list \<Rightarrow> real list \<Rightarrow> int
     \<Rightarrow> (int \<times> real) list \<Rightarrow> nat \<Rightarrow> (int \<times> real) list" where
  "multilerp_corner field floored t extra_bound samples i =
     (case foldl (multilerp_dim field floored t extra_bound i) (0, 1, True)
             [0..<length (sizes field)] of
        (index, weight, inside) \<Rightarrow>
          if inside then samples @ [(index, weight)] else samples)"

definition multilerp :: "LatticeField \<Rightarrow> real list \<Rightarrow> int \<Rightarrow> (int \<times> real) list option" where
  "multilerp field in_pos extra_bound =
     (let num_dim = length (sizes field) in
      if \<not> (1 \<le> num_dim \<and> num_dim \<le> MAX_DIM) then None
      else
        let floored = map (\<lambda>d. \<lfloor>in_pos ! d\<rfloor>) [0..<num_dim];
            t = map (\<lambda>d. in_pos ! d - of_int (floored ! d)) [0..<num_dim]
        in Some (foldl (multilerp_corner field floored t extra_bound) [] [0..<2 ^ num_dim]))"

section \<open>Value constraints\<close>

text \<open>
  \<^verbatim>\<open>add_value_constraint\<close> returns its \<^verbatim>\<open>bool\<close> together with the updated field
  (\<open>None\<close> when \<^verbatim>\<open>multilerp\<close> aborts).
\<close>

definition add_value_sample ::
  "int \<Rightarrow> real \<Rightarrow> Triplet list \<times> real \<Rightarrow> int \<times> real \<Rightarrow> Triplet list \<times> real" where
  "add_value_sample r constraint_weight acc sample =
     (let sample_weight = snd sample * constraint_weight
      in (fst acc @ [\<lparr>row = r, col = fst sample, val = sample_weight\<rparr>],
          snd acc + sample_weight))"

definition add_value_constraint ::
  "LatticeField \<Rightarrow> real list \<Rightarrow> real \<Rightarrow> real \<Rightarrow> (bool \<times> LatticeField) option" where
  "add_value_constraint field pos target constraint_weight =
     (if constraint_weight = 0 then Some (False, field)
      else
        case multilerp field pos 0 of
          None \<Rightarrow> None
        | Some samples \<Rightarrow>
            if length samples = 0 then Some (False, field)
            else
              let r = int (length (rhs (eq field)));
                  acc = foldl (add_value_sample r constraint_weight)
                          (triplets (eq field), 0) samples
              in Some (True,
                   field\<lparr>eq := \<lparr>triplets = fst acc,
                                 rhs = rhs (eq field) @ [snd acc * target]\<rparr>\<rparr>))"

section \<open>Gradient constraints\<close>

text \<open>\<^verbatim>\<open>cell_index\<close>: \<open>-1\<close> as soon as one dimension is out of the lattice.\<close>

fun cell_index_loop :: "LatticeField \<Rightarrow> real list \<Rightarrow> int \<Rightarrow> nat list \<Rightarrow> int" where
  "cell_index_loop field pos index [] = index"
| "cell_index_loop field pos index (d # ds) =
     (let pos_d = \<lfloor>pos ! d\<rfloor>;
          in_lattice = (0 \<le> pos_d \<and> pos_d + 1 < sizes field ! d)
      in if \<not> in_lattice then - 1
         else cell_index_loop field pos (index + pos_d * strides field ! d) ds)"

definition cell_index :: "LatticeField \<Rightarrow> real list \<Rightarrow> int" where
  "cell_index field pos = cell_index_loop field pos 0 [0..<length (sizes field)]"

text \<open>The body of the loop over \<open>d\<close> of the nearest-neighbour kernel.\<close>

definition nearest_neighbor_dim ::
  "int \<Rightarrow> real list \<Rightarrow> real \<Rightarrow> LatticeField \<Rightarrow> nat \<Rightarrow> LatticeField" where
  "nearest_neighbor_dim index gradient constraint_weight field d =
     field\<lparr>eq := add_equation (eq field) constraint_weight (gradient ! d)
                    [(index + 0, - 1), (index + strides field ! d, 1)]\<rparr>"

text \<open>
  The cell-edges kernel: \<^verbatim>\<open>corner_index\<close> is accumulated over \<open>oa\<close>; one triplet is
  pushed per corner; one \<^verbatim>\<open>rhs\<close> entry is pushed per dimension. \<^verbatim>\<open>(corner >> oa) % 2\<close>
  is taken of a non-negative number.
\<close>

definition cell_edges_corner_index :: "LatticeField \<Rightarrow> int \<Rightarrow> nat \<Rightarrow> int" where
  "cell_edges_corner_index field index corner =
     foldl (\<lambda>corner_index oa.
              let is_along_oa = drop_bit oa corner mod 2
              in corner_index + strides field ! oa * int is_along_oa)
       index [0..<length (sizes field)]"

definition cell_edges_corner ::
  "LatticeField \<Rightarrow> int \<Rightarrow> nat \<Rightarrow> int \<Rightarrow> real \<Rightarrow> Triplet list \<Rightarrow> nat \<Rightarrow> Triplet list" where
  "cell_edges_corner field index d r term_weight ts corner =
     (let corner_index = cell_edges_corner_index field index corner;
          is_along_d = (drop_bit d corner mod 2 \<noteq> 0);
          sign = (if is_along_d then 1 else - 1)
      in ts @ [\<lparr>row = r, col = corner_index, val = sign * term_weight\<rparr>])"

definition cell_edges_dim ::
  "int \<Rightarrow> real list \<Rightarrow> real \<Rightarrow> LatticeField \<Rightarrow> nat \<Rightarrow> LatticeField" where
  "cell_edges_dim index gradient constraint_weight field d =
     (let num_dim = length (sizes field);
          r = int (length (rhs (eq field)));
          num_corners = (2::nat) ^ num_dim;
          term_weight = constraint_weight * 2 / real num_corners;
          ts = foldl (cell_edges_corner field index d r term_weight)
                 (triplets (eq field)) [0..<num_corners]
      in field\<lparr>eq := \<lparr>triplets = ts,
                       rhs = rhs (eq field) @ [constraint_weight * gradient ! d]\<rparr>\<rparr>)"

text \<open>The linear-interpolation kernel: two triplets per sample, one row per dimension.\<close>

definition linear_interpolation_sample ::
  "LatticeField \<Rightarrow> nat \<Rightarrow> int \<Rightarrow> real
     \<Rightarrow> Triplet list \<times> real \<Rightarrow> int \<times> real \<Rightarrow> Triplet list \<times> real" where
  "linear_interpolation_sample field d r constraint_weight acc sample =
     (let sample_weight = snd sample * constraint_weight
      in (fst acc @ [\<lparr>row = r, col = fst sample + 0, val = - sample_weight\<rparr>,
                     \<lparr>row = r, col = fst sample + strides field ! d, val = sample_weight\<rparr>],
          snd acc + sample_weight))"

definition linear_interpolation_dim ::
  "(int \<times> real) list \<Rightarrow> real list \<Rightarrow> real \<Rightarrow> LatticeField \<Rightarrow> nat \<Rightarrow> LatticeField" where
  "linear_interpolation_dim samples gradient constraint_weight field d =
     (let r = int (length (rhs (eq field)));
          acc = foldl (linear_interpolation_sample field d r constraint_weight)
                  (triplets (eq field), 0) samples
      in field\<lparr>eq := \<lparr>triplets = fst acc,
                       rhs = rhs (eq field) @ [snd acc * gradient ! d]\<rparr>\<rparr>)"

text \<open>
  \<^verbatim>\<open>add_gradient_constraint\<close>. The last branch of the source (\<^verbatim>\<open>ABORT_F\<close> on an unknown
  kernel) is excluded by the type \<^typ>\<open>GradientKernel\<close>.
\<close>

definition add_gradient_constraint ::
  "LatticeField \<Rightarrow> real list \<Rightarrow> real list \<Rightarrow> real \<Rightarrow> GradientKernel
     \<Rightarrow> (bool \<times> LatticeField) option" where
  "add_gradient_constraint field pos gradient constraint_weight gkernel =
     (if constraint_weight = 0 then Some (False, field)
      else
        case gkernel of
          kNearestNeighbor \<Rightarrow>
            (let index = cell_index field pos in
             if index < 0 then Some (False, field)
             else Some (True,
                    foldl (nearest_neighbor_dim index gradient constraint_weight) field
                      [0..<length (sizes field)]))
        | kCellEdges \<Rightarrow>
            (let index = cell_index field pos in
             if index < 0 then Some (False, field)
             else Some (True,
                    foldl (cell_edges_dim index gradient constraint_weight) field
                      [0..<length (sizes field)]))
        | kLinearInteprolation \<Rightarrow>
            (let num_dim = length (sizes field);
                 adjusted_pos = map (\<lambda>d. pos ! d - 0.5) [0..<num_dim]
             in case multilerp field adjusted_pos 1 of
                  None \<Rightarrow> None
                | Some samples \<Rightarrow>
                    if length samples = 0 then Some (False, field)
                    else Some (True,
                           foldl (linear_interpolation_dim samples gradient constraint_weight)
                             field [0..<num_dim])))"

section \<open>Model constraints\<close>

text \<open>
  \<^verbatim>\<open>add_model_constraint\<close>: six guarded blocks run one after the other on the linear
  system; the last one loops over the orthogonal dimensions.
\<close>

definition cross_partial_dim ::
  "LatticeField \<Rightarrow> Weights \<Rightarrow> int list \<Rightarrow> int \<Rightarrow> nat
     \<Rightarrow> LinearEquation \<Rightarrow> nat \<Rightarrow> LinearEquation" where
  "cross_partial_dim field weights coordinate index d e orthogonal_dim =
     (if d = orthogonal_dim then e
      else if coordinate ! orthogonal_dim + 1 \<ge> sizes field ! orthogonal_dim then e
      else add_equation e (gradient_smoothness weights) 0
             [(index + 0 * strides field ! orthogonal_dim + 0 * strides field ! d, - 1),
              (index + 0 * strides field ! orthogonal_dim + 1 * strides field ! d, 1),
              (index + 1 * strides field ! orthogonal_dim + 0 * strides field ! d, 1),
              (index + 1 * strides field ! orthogonal_dim + 1 * strides field ! d, - 1)])"

definition add_model_constraint ::
  "LatticeField \<Rightarrow> Weights \<Rightarrow> int list \<Rightarrow> int \<Rightarrow> nat \<Rightarrow> LatticeField" where
  "add_model_constraint field weights coordinate index d =
     (let size = sizes field ! d;
          stride = strides field ! d;
          dim_cord = coordinate ! d;
          e0 = eq field;
          e1 = (if model_0 weights > 0 \<and> 0 \<le> dim_cord \<and> dim_cord < size
                then add_equation e0 (model_0 weights) 0 [(index, 1)] else e0);
          e2 = (if model_1 weights > 0 \<and> 0 \<le> dim_cord \<and> dim_cord + 1 < size
                then add_equation e1 (model_1 weights) 0
                       [(index + 0 * stride, - 1), (index + 1 * stride, 1)] else e1);
          e3 = (if model_2 weights > 0 \<and> 0 \<le> dim_cord \<and> dim_cord + 2 < size
                then add_equation e2 (model_2 weights) 0
                       [(index + 0 * stride, 1), (index + 1 * stride, - 2),
                        (index + 2 * stride, 1)] else e2);
          e4 = (if model_3 weights > 0 \<and> 0 \<le> dim_cord \<and> dim_cord + 3 < size
                then add_equation e3 (model_3 weights) 0
                       [(index + 0 * stride, 1), (index + 1 * stride, - 3),
                        (index + 2 * stride, 3), (index + 3 * stride, - 1)] else e3);
          e5 = (if model_4 weights > 0 \<and> 0 \<le> dim_cord \<and> dim_cord + 4 < size
                then add_equation e4 (model_4 weights) 0
                       [(index + 0 * stride, 1), (index + 1 * stride, - 4),
                        (index + 2 * stride, 6), (index + 3 * stride, - 4),
                        (index + 4 * stride, 1)] else e4);
          e6 = (if gradient_smoothness weights > 0 \<and> 0 \<le> dim_cord \<and> dim_cord + 1 < size
                then foldl (cross_partial_dim field weights coordinate index d) e5
                       [0..<length (sizes field)] else e5)
      in field\<lparr>eq := e6\<rparr>)"

text \<open>
  \<^verbatim>\<open>coordinate_from_index\<close>: C's \<^verbatim>\<open>%\<close> and \<^verbatim>\<open>/\<close> on \<^verbatim>\<open>int\<close> truncate towards zero
  (\<open>smod\<close> and \<open>sdiv\<close>); the loop consumes \<^verbatim>\<open>field.sizes\<close> from dimension 0.
\<close>

fun coordinate_from_index_loop :: "int list \<Rightarrow> int \<Rightarrow> int list" where
  "coordinate_from_index_loop [] index = []"
| "coordinate_from_index_loop (s # ss) index =
     (index smod s) # coordinate_from_index_loop ss (index sdiv s)"

definition coordinate_from_index :: "LatticeField \<Rightarrow> int \<Rightarrow> int list" where
  "coordinate_from_index field index = coordinate_from_index_loop (sizes field) index"

definition add_field_constraints_cell :: "Weights \<Rightarrow> LatticeField \<Rightarrow> nat \<Rightarrow> LatticeField" where
  "add_field_constraints_cell weights field index =
     (let coordinate = coordinate_from_index field (int index)
      in foldl (\<lambda>f d. add_model_constraint f weights coordinate (int index) d) field
           [0..<length (sizes field)])"

definition add_field_constraints :: "LatticeField \<Rightarrow> Weights \<Rightarrow> LatticeField" where
  "add_field_constraints field weights =
     (let num_unknowns = foldl (\<lambda>n dimension_size. n * dimension_size) 1 (sizes field)
      in foldl (add_field_constraints_cell weights) field [0..<nat num_unknowns])"

section \<open>The driver\<close>

text \<open>
  \<^verbatim>\<open>sdf_from_points\<close>: \<^verbatim>\<open>positions\<close> and \<^verbatim>\<open>normals\<close> are flat point-major arrays, so
  \<^verbatim>\<open>positions + i * num_dim\<close> is \<open>drop (i * num_dim) positions\<close>; the nullable pointers
  \<^verbatim>\<open>normals\<close> and \<^verbatim>\<open>point_weights\<close> are options. The booleans of the two constraint
  functions are ignored, an abort is passed on.
\<close>

definition sdf_from_points_point ::
  "Weights \<Rightarrow> real list \<Rightarrow> real list option \<Rightarrow> real list option
     \<Rightarrow> LatticeField \<Rightarrow> nat \<Rightarrow> LatticeField option" where
  "sdf_from_points_point weights positions normals point_weights field i =
     (let num_dim = length (sizes field);
          weight = (case point_weights of Some pw \<Rightarrow> pw ! i | None \<Rightarrow> 1);
          pos = drop (i * num_dim) positions
      in Option.bind (add_value_constraint field pos 0 (weight * data_pos weights))
           (\<lambda>r1. case normals of
                    None \<Rightarrow> Some (snd r1)
                  | Some ns \<Rightarrow>
                      map_option snd
                        (add_gradient_constraint (snd r1) pos (drop (i * num_dim) ns)
                           (weight * data_gradient weights) (gradient_kernel weights))))"

definition sdf_from_points ::
  "int list \<Rightarrow> Weights \<Rightarrow> nat \<Rightarrow> real list \<Rightarrow> real list option \<Rightarrow> real list option
     \<Rightarrow> LatticeField option" where
  "sdf_from_points szs weights num_points positions normals point_weights =
     foldl (\<lambda>state i.
              Option.bind state
                (\<lambda>field. sdf_from_points_point weights positions normals point_weights field i))
       (Some (add_field_constraints (new_field szs) weights)) [0..<num_points]"

section \<open>Error attribution\<close>

text \<open>
  \<^verbatim>\<open>generate_error_map\<close> indexes \<^verbatim>\<open>row_errors\<close> and \<^verbatim>\<open>sum_of_value_sq\<close> by
  \<^verbatim>\<open>triplet.row\<close> and \<^verbatim>\<open>solution\<close> and \<^verbatim>\<open>heatmap\<close> by \<^verbatim>\<open>triplet.col\<close> without a
  check; an index out of range is undefined behaviour in C++ and \<open>None\<close> here.
\<close>

definition triplet_in_range :: "nat \<Rightarrow> nat \<Rightarrow> Triplet \<Rightarrow> bool" where
  "triplet_in_range num_rows num_cols triplet =
     (0 \<le> row triplet \<and> row triplet < int num_rows
      \<and> 0 \<le> col triplet \<and> col triplet < int num_cols)"

definition accumulate_rows ::
  "real list \<Rightarrow> real list \<times> real list \<Rightarrow> Triplet \<Rightarrow> real list \<times> real list" where
  "accumulate_rows solution acc triplet =
     (let row_errors = fst acc; sum_of_value_sq = snd acc; r = nat (row triplet)
      in (row_errors[r := row_errors ! r - solution ! nat (col triplet) * val triplet],
          sum_of_value_sq[r := sum_of_value_sq ! r + val triplet * val triplet]))"

definition blame :: "real list \<Rightarrow> real list \<Rightarrow> real list \<Rightarrow> Triplet \<Rightarrow> real list" where
  "blame sum_of_value_sq row_errors heatmap triplet =
     (if sum_of_value_sq ! nat (row triplet) \<noteq> 0
      then
        let blame_fraction =
              (val triplet * val triplet) / sum_of_value_sq ! nat (row triplet);
            c = nat (col triplet)
        in heatmap[c := heatmap ! c + blame_fraction * row_errors ! nat (row triplet)]
      else heatmap)"

definition generate_error_map ::
  "Triplet list \<Rightarrow> real list \<Rightarrow> real list \<Rightarrow> real list option" where
  "generate_error_map ts solution rhs_vec =
     (if \<not> list_all (triplet_in_range (length rhs_vec) (length solution)) ts then None
      else
        let acc = foldl (accumulate_rows solution)
                    (rhs_vec, replicate (length rhs_vec) 0) ts;
            row_errors = map (\<lambda>error. error * error) (fst acc);
            sum_of_value_sq = snd acc
        in Some (foldl (blame sum_of_value_sq row_errors)
                   (replicate (length solution) 0) ts))"

section \<open>Notions of the specification\<close>

text \<open>The weights of scenario S1: everything zero except \<open>data_pos = 1\<close>.\<close>

definition S1_weights :: Weights where
  "S1_weights =
     \<lparr>data_pos = 1, data_gradient = 0, model_0 = 0, model_1 = 0, model_2 = 0, model_3 = 0,
      model_4 = 0, gradient_smoothness = 0, gradient_kernel = kNearestNeighbor\<rparr>"

text \<open>
  The corners of the interpolation cell as the specification describes them: bit \<open>d\<close> of
  corner \<open>i\<close>, the corner's linear index, its kernel weight and whether it is admitted.
  They are compared with the loops of \<^verbatim>\<open>multilerp\<close> below.
\<close>

definition corner_bit :: "nat \<Rightarrow> nat \<Rightarrow> nat" where
  "corner_bit i d = drop_bit d i AND 1"

definition corner_index :: "LatticeField \<Rightarrow> int list \<Rightarrow> nat \<Rightarrow> int" where
  "corner_index field floored i =
     sum_list (map (\<lambda>d. strides field ! d * (floored ! d + int (corner_bit i d)))
       [0..<length (sizes field)])"

definition corner_weight :: "real list \<Rightarrow> nat \<Rightarrow> nat \<Rightarrow> real" where
  "corner_weight t n i =
     prod_list (map (\<lambda>d. if corner_bit i d \<noteq> 0 then t ! d else 1 - t ! d) [0..<n])"

definition corner_inside :: "LatticeField \<Rightarrow> int list \<Rightarrow> int \<Rightarrow> nat \<Rightarrow> bool" where
  "corner_inside field floored extra_bound i =
     (\<forall>d \<in> {0..<length (sizes field)}.
        0 \<le> floored ! d + int (corner_bit i d)
      \<and> floored ! d + int (corner_bit i d) + extra_bound < sizes field ! d)"

text \<open>
  The row of a value constraint as the specification words it (one triplet
  \<open>(row, idx, interp_weight * w)\<close> per sample), and the coefficients a system holds in
  a given row.
\<close>

definition value_row :: "int \<Rightarrow> real \<Rightarrow> (int \<times> real) list \<Rightarrow> Triplet list" where
  "value_row r w samples = map (\<lambda>s. \<lparr>row = r, col = fst s, val = snd s * w\<rparr>) samples"

definition row_coefficients :: "Triplet list \<Rightarrow> int \<Rightarrow> real list" where
  "row_coefficients ts r = map val (filter (\<lambda>t. row t = r) ts)"

text \<open>
  Row density of a linear system: every triplet's row index is below \<open>len(rhs)\<close>, and
  every row index below \<open>len(rhs)\<close> is the row of some triplet.
\<close>

definition row_dense :: "LinearEquation \<Rightarrow> bool" where
  "row_dense e =
     ((\<forall>t \<in> set (triplets e). 0 \<le> row t \<and> row t < int (length (rhs e)))
    \<and> (\<forall>r \<in> {0..<length (rhs e)}. \<exists>t \<in> set (triplets e). row t = int r))"

text \<open>
  A sequence of assembly operations: the calls the assembler offers, with their arguments.
  A call that aborts (\<^verbatim>\<open>CHECK_F\<close> in \<^verbatim>\<open>multilerp\<close>) ends the run with \<open>None\<close>.
\<close>

datatype assembly_op =
    ValueConstraint "real list" real real
  | GradientConstraint "real list" "real list" real GradientKernel
  | ModelConstraint Weights "int list" int nat
  | FieldConstraints Weights
  | Equation real real "(int \<times> real) list"

fun assemble_op :: "LatticeField \<Rightarrow> assembly_op \<Rightarrow> LatticeField option" where
  "assemble_op field (ValueConstraint pos target w) =
     map_option snd (add_value_constraint field pos target w)"
| "assemble_op field (GradientConstraint pos gradient w gkernel) =
     map_option snd (add_gradient_constraint field pos gradient w gkernel)"
| "assemble_op field (ModelConstraint weights coordinate index d) =
     Some (add_model_constraint field weights coordinate index d)"
| "assemble_op field (FieldConstraints weights) =
     Some (add_field_constraints field weights)"
| "assemble_op field (Equation w b pairs) =
     Some (field\<lparr>eq := add_equation (eq field) w b pairs\<rparr>)"

fun assemble :: "LatticeField \<Rightarrow> assembly_op list \<Rightarrow> LatticeField option" where
  "assemble field [] = Some field"
| "assemble field (x # xs) =
     (case assemble_op field x of None \<Rightarrow> None | Some field' \<Rightarrow> assemble field' xs)"

text \<open>
  The rows of the cell-edges gradient kernel as the specification words them: corner \<open>c\<close>
  of the cell at \<open>idx\<close> has index \<open>idx + \<Sum>\<^sub>a strides[a] * bit\<^sub>a(c)\<close>; in the row of dimension
  \<open>d\<close> it carries the coefficient \<open>\<plusminus> (w * 2 / 2^N)\<close>, positive iff bit \<open>d\<close> of \<open>c\<close> is 1.
\<close>

definition corner_of_cell :: "int list \<Rightarrow> nat \<Rightarrow> int \<Rightarrow> nat \<Rightarrow> int" where
  "corner_of_cell strds n idx c =
     idx + sum_list (map (\<lambda>a. strds ! a * int (corner_bit c a)) [0..<n])"

definition cell_edges_row :: "int list \<Rightarrow> nat \<Rightarrow> int \<Rightarrow> real \<Rightarrow> int \<Rightarrow> nat \<Rightarrow> Triplet list" where
  "cell_edges_row strds n idx w r d =
     map (\<lambda>c. \<lparr>row = r, col = corner_of_cell strds n idx c,
               val = (if corner_bit c d = 1 then w * 2 / 2 ^ n else - (w * 2 / 2 ^ n))\<rparr>)
       [0..<2 ^ n]"

definition cell_edges_rows :: "int list \<Rightarrow> nat \<Rightarrow> int \<Rightarrow> real \<Rightarrow> int \<Rightarrow> Triplet list" where
  "cell_edges_rows strds n idx w r0 =
     concat (map (\<lambda>d. cell_edges_row strds n idx w (r0 + int d) d) [0..<n])"

text \<open>
  The quantities of the error attribution as the specification words them: the residual
  \<open>rhs[r] - \<Sum> v * x[c]\<close> and the energy \<open>\<Sum> v\<^sup>2\<close> of row \<open>r\<close>, both over the triplets
  \<open>(r, c, v)\<close> of that row.
\<close>

definition residual :: "Triplet list \<Rightarrow> real list \<Rightarrow> real list \<Rightarrow> nat \<Rightarrow> real" where
  "residual ts x b r =
     b ! r - sum_list (map (\<lambda>t. val t * x ! nat (col t)) (filter (\<lambda>t. row t = int r) ts))"

definition row_energy :: "Triplet list \<Rightarrow> nat \<Rightarrow> real" where
  "row_energy ts r = sum_list (map (\<lambda>t. val t * val t) (filter (\<lambda>t. row t = int r) ts))"

text \<open>The share of its row's squared error that one triplet adds to the heatmap.\<close>

definition blame_share :: "real list \<Rightarrow> real list \<Rightarrow> Triplet \<Rightarrow> real" where
  "blame_share sq errs t =
     (if sq ! nat (row t) \<noteq> 0
      then val t * val t / sq ! nat (row t) * errs ! nat (row t) else 0)"

text \<open>
  The lattice coordinate of a cell as the specification gives it:
  \<open>coord[d] = (index / \<Prod>\<^sub>k\<^sub><\<^sub>d sizes[k]) mod sizes[d]\<close>.
\<close>

definition coord_of :: "int list \<Rightarrow> int \<Rightarrow> int list" where
  "coord_of szs index =
     map (\<lambda>d. (index div prod_list (take d szs)) mod szs ! d) [0..<length szs]"

text \<open>
  Polynomials in the lattice coordinates: a list of monomials, each a coefficient with one
  exponent per dimension (a missing exponent is 0). A polynomial has degree below \<open>k\<close>
  when every monomial has total degree below \<open>k\<close>. Sampling it on the lattice gives the
  field \<open>x[index] = p(coord(index))\<close>.
\<close>

type_synonym monomial = "real \<times> nat list"

fun monomial_eval :: "nat list \<Rightarrow> int list \<Rightarrow> real" where
  "monomial_eval (e # es) (v # c) = of_int v ^ e * monomial_eval es c"
| "monomial_eval es c = 1"

definition poly_eval :: "monomial list \<Rightarrow> int list \<Rightarrow> real" where
  "poly_eval p c = sum_list (map (\<lambda>m. fst m * monomial_eval (snd m) c) p)"

definition degree_below :: "nat \<Rightarrow> monomial list \<Rightarrow> bool" where
  "degree_below k p = (\<forall>m \<in> set p. sum_list (snd m) < k)"

definition sample_polynomial :: "int list \<Rightarrow> monomial list \<Rightarrow> real list" where
  "sample_polynomial szs p =
     map (\<lambda>i. poly_eval p (coord_of szs (int i))) [0..<nat (prod_list szs)]"

text \<open>
  Only the model weight of order \<open>k\<close> is positive; the other model weights and the
  gradient smoothness are zero.
\<close>

definition model_weights :: "Weights \<Rightarrow> real list" where
  "model_weights weights =
     [model_0 weights, model_1 weights, model_2 weights, model_3 weights, model_4 weights]"

definition only_model :: "nat \<Rightarrow> Weights \<Rightarrow> bool" where
  "only_model k weights =
     (k < 5 \<and> 0 < model_weights weights ! k
      \<and> (\<forall>j \<in> {0..<5}. j \<noteq> k \<longrightarrow> model_weights weights ! j = 0)
      \<and> gradient_smoothness weights = 0)"

text \<open>
  The finite-difference stencil of order \<open>k\<close> (offset in strides, coefficient), and a
  field with zero residual on every row of a system.
\<close>

definition stencil :: "nat \<Rightarrow> (int \<times> real) list" where
  "stencil k =
     (if k = 0 then [(0, 1)]
      else if k = 1 then [(0, - 1), (1, 1)]
      else if k = 2 then [(0, 1), (1, - 2), (2, 1)]
      else if k = 3 then [(0, 1), (1, - 3), (2, 3), (3, - 1)]
      else [(0, 1), (1, - 4), (2, 6), (3, - 4), (4, 1)])"

definition zero_residual :: "real list \<Rightarrow> LinearEquation \<Rightarrow> bool" where
  "zero_residual x e = (\<forall>r \<in> {0..<length (rhs e)}. residual (triplets e) x (rhs e) r = 0)"

text \<open>What the loops of \<^verbatim>\<open>add_field_constraints\<close> maintain for a sampled field \<open>x\<close>.\<close>

definition model_invariant :: "int list \<Rightarrow> real list \<Rightarrow> LatticeField \<Rightarrow> bool" where
  "model_invariant szs x field =
     (sizes field = szs \<and> strides field = strides_of szs
      \<and> row_dense (eq field) \<and> zero_residual x (eq field))"

section \<open>Properties of the append primitive\<close>

lemma add_equation_loop:
  "foldl (add_equation_step r w) (ts, az) pairs =
     (ts @ map (\<lambda>p. \<lparr>row = r, col = fst p, val = snd p * w\<rparr>) (filter (\<lambda>p. snd p \<noteq> 0) pairs),
      az \<and> (\<forall>p \<in> set pairs. snd p = 0))"
  by (induction pairs arbitrary: ts az) (auto simp: add_equation_step_def)

lemma add_equation_unfold:
  "w \<noteq> 0 \<Longrightarrow> add_equation e w b pairs =
     \<lparr>triplets = triplets e @
        map (\<lambda>p. \<lparr>row = int (length (rhs e)), col = fst p, val = snd p * w\<rparr>)
          (filter (\<lambda>p. snd p \<noteq> 0) pairs),
      rhs = (if \<forall>p \<in> set pairs. snd p = 0 then rhs e else rhs e @ [b * w])\<rparr>"
  by (simp add: add_equation_def add_equation_loop Let_def)

text \<open>
  C5. An equation whose weight is nonzero and whose coefficients are all zero is dropped:
  \<^verbatim>\<open>add_equation\<close> appends no triplet and \<^verbatim>\<open>rhs\<close> does not grow, whatever the
  requested right-hand side is (also when it is nonzero).
\<close>

theorem add_equation_all_zero_dropped:
  assumes "weight \<noteq> 0" and "\<forall>p \<in> set pairs. snd p = 0"
  shows "triplets (add_equation e weight rhs_value pairs) = triplets e
       \<and> rhs (add_equation e weight rhs_value pairs) = rhs e"
proof -
  have "filter (\<lambda>p. snd p \<noteq> 0) pairs = []"
    using assms(2) by (simp add: filter_empty_conv)
  then show ?thesis
    using assms by (simp add: add_equation_unfold)
qed

theorem add_equation_all_zero_dropped_witness:
  "triplets (add_equation \<lparr>triplets = [], rhs = [5]\<rparr> 2 7 [(0, 0), (3, 0)]) = []
 \<and> rhs (add_equation \<lparr>triplets = [], rhs = [5]\<rparr> 2 7 [(0, 0), (3, 0)]) = [5]"
  using add_equation_all_zero_dropped
    [of 2 "[(0, 0), (3, 0)]" "\<lparr>triplets = [], rhs = [5]\<rparr>" 7]
  by simp

section \<open>Scenario S1\<close>

text \<open>
  C1, as the specification states it, does not hold. In scenario S1 (\<open>sizes = [5]\<close>,
  only \<open>data_pos = 1\<close>, one point at \<open>pos = [2.0]\<close> with target 0) the position has
  fractional part 0, so the upper corner 3 has kernel weight 0; it lies inside the lattice,
  \<^verbatim>\<open>multilerp\<close> emits it, and \<^verbatim>\<open>add_value_constraint\<close> pushes its triplet without
  looking at the coefficient. The triplets of the assembled system are therefore not the
  single triplet \<open>(0, 2, 1.0)\<close>.
\<close>

theorem S1_single_triplet_counterexample:
  "map_option (\<lambda>field. triplets (eq field)) (sdf_from_points [5] S1_weights 1 [2] None None)
     \<noteq> Some [\<lparr>row = 0, col = 2, val = 1\<rparr>]"
  by code_simp

text \<open>
  C1, amended. In scenario S1 the assembled system has exactly one row, which holds the two
  triplets \<open>(0, 2, 1.0)\<close> and \<open>(0, 3, 0.0)\<close>, and \<open>rhs = [0.0]\<close>.
\<close>

theorem S1_system:
  "map_option eq (sdf_from_points [5] S1_weights 1 [2] None None) =
     Some \<lparr>triplets = [\<lparr>row = 0, col = 2, val = 1\<rparr>, \<lparr>row = 0, col = 3, val = 0\<rparr>],
           rhs = [0]\<rparr>"
  by code_simp

section \<open>The loops of multilerp\<close>

lemma multilerp_dim_loop:
  "foldl (multilerp_dim field floored t extra_bound i) (index, weight, inside) ds =
     (index + sum_list (map (\<lambda>d. strides field ! d * (floored ! d + int (corner_bit i d))) ds),
      weight * prod_list (map (\<lambda>d. if corner_bit i d \<noteq> 0 then t ! d else 1 - t ! d) ds),
      inside \<and> (\<forall>d \<in> set ds. 0 \<le> floored ! d + int (corner_bit i d)
                    \<and> floored ! d + int (corner_bit i d) + extra_bound < sizes field ! d))"
  by (induction ds arbitrary: index weight inside)
     (auto simp: multilerp_dim_def corner_bit_def Let_def algebra_simps)

lemma multilerp_corner_eq:
  "multilerp_corner field floored t extra_bound samples i =
     (if corner_inside field floored extra_bound i
      then samples @ [(corner_index field floored i, corner_weight t (length (sizes field)) i)]
      else samples)"
  by (simp add: multilerp_corner_def multilerp_dim_loop corner_inside_def corner_index_def
        corner_weight_def)

lemma multilerp_corner_loop:
  "foldl (multilerp_corner field floored t extra_bound) samples is =
     samples @ map (\<lambda>i. (corner_index field floored i, corner_weight t (length (sizes field)) i))
                 (filter (corner_inside field floored extra_bound) is)"
  by (induction "is" arbitrary: samples) (simp_all add: multilerp_corner_eq)

lemma corner_bit_high: "i < 2 ^ n \<Longrightarrow> corner_bit i n = 0"
  by (simp add: corner_bit_def drop_bit_eq_div)

lemma corner_bit_shift_low:
  assumes "d < n"
  shows "corner_bit (i + 2 ^ n) d = corner_bit i d"
proof -
  obtain k where n: "n = d + Suc k"
    using assms less_iff_Suc_add by auto
  have "i + 2 ^ n = i + 2 ^ d * (2 * 2 ^ k)"
    by (simp add: n power_add)
  then have "(i + 2 ^ n) div 2 ^ d = i div 2 ^ d + 2 * 2 ^ k"
    by (simp only: div_mult_self2 [of "2 ^ d" i "2 * 2 ^ k"]) simp
  then show ?thesis
    by (simp add: corner_bit_def and_one_eq drop_bit_eq_div)
qed

lemma corner_bit_shift_high: "i < 2 ^ n \<Longrightarrow> corner_bit (i + 2 ^ n) n = 1"
  by (simp add: corner_bit_def and_one_eq drop_bit_eq_div)

lemma corner_bit_le1: "corner_bit i d \<le> 1"
  by (simp add: corner_bit_def and_one_eq)

lemma corner_weight_Suc:
  "corner_weight t (Suc n) i =
     corner_weight t n i * (if corner_bit i n \<noteq> 0 then t ! n else 1 - t ! n)"
  by (simp add: corner_weight_def)

lemma corner_weight_shift: "corner_weight t n (i + 2 ^ n) = corner_weight t n i"
proof -
  have "map (\<lambda>d. if corner_bit (i + 2 ^ n) d \<noteq> 0 then t ! d else 1 - t ! d) [0..<n]
      = map (\<lambda>d. if corner_bit i d \<noteq> 0 then t ! d else 1 - t ! d) [0..<n]"
    by (rule map_cong) (simp_all add: corner_bit_shift_low)
  then show ?thesis
    by (simp only: corner_weight_def)
qed

lemma upt_double: "[0..<2 ^ Suc n] = [0..<2 ^ n] @ map (\<lambda>i. i + 2 ^ n) [0..<2 ^ n]"
proof -
  have "[0..<2 ^ n + 2 ^ n] = [0..<2 ^ n] @ [2 ^ n..<2 ^ n + 2 ^ n]"
    by (rule upt_add_eq_append) simp
  moreover have "map (\<lambda>i. i + 2 ^ n) [0..<2 ^ n] = [2 ^ n..<2 ^ n + 2 ^ n]"
    using map_add_upt [of "2 ^ n" "2 ^ n"] by simp
  ultimately show ?thesis by (simp add: mult_2)
qed

lemma corner_weight_sum: "sum_list (map (corner_weight t n) [0..<2 ^ n]) = 1"
proof (induction n)
  case 0
  show ?case by (simp add: corner_weight_def)
next
  case (Suc n)
  have low: "map (corner_weight t (Suc n)) [0..<2 ^ n]
           = map (\<lambda>i. corner_weight t n i * (1 - t ! n)) [0..<2 ^ n]"
    by (rule map_cong) (simp_all add: corner_weight_Suc corner_bit_high)
  have high: "map (\<lambda>i. corner_weight t (Suc n) (i + 2 ^ n)) [0..<2 ^ n]
            = map (\<lambda>i. corner_weight t n i * t ! n) [0..<2 ^ n]"
    by (rule map_cong) (simp_all add: corner_weight_Suc corner_weight_shift corner_bit_shift_high)
  have "sum_list (map (corner_weight t (Suc n)) [0..<2 ^ Suc n])
      = sum_list (map (\<lambda>i. corner_weight t n i * (1 - t ! n)) [0..<2 ^ n])
      + sum_list (map (\<lambda>i. corner_weight t n i * t ! n) [0..<2 ^ n])"
    unfolding upt_double by (simp add: low high comp_def)
  also have "\<dots> = (1 - t ! n) + t ! n"
    by (simp add: sum_list_mult_const Suc.IH)
  finally show ?case by simp
qed

section \<open>Partition of unity\<close>

text \<open>
  C3. For a lattice of dimension \<open>N\<close> in \<open>[1, 4]\<close> and a position whose coordinates all
  satisfy \<open>0 \<le> pos[d] < sizes[d] - 1\<close>, \<^verbatim>\<open>multilerp\<close> with \<open>extra_bound = 0\<close> returns
  exactly \<open>2^N\<close> samples, and their kernel weights sum to 1 (in exact arithmetic).
\<close>

theorem multilerp_partition_of_unity:
  assumes "1 \<le> length (sizes field)" and "length (sizes field) \<le> 4"
    and "\<forall>d < length (sizes field). 0 \<le> pos ! d \<and> pos ! d < real_of_int (sizes field ! d) - 1"
  shows "\<exists>samples. multilerp field pos 0 = Some samples
           \<and> length samples = 2 ^ length (sizes field)
           \<and> sum_list (map snd samples) = 1"
proof -
  let ?n = "length (sizes field)"
  let ?floored = "map (\<lambda>d. \<lfloor>pos ! d\<rfloor>) [0..<?n]"
  let ?t = "map (\<lambda>d. pos ! d - of_int (?floored ! d)) [0..<?n]"
  have inside: "corner_inside field ?floored 0 i" for i
    unfolding corner_inside_def
  proof
    fix d assume "d \<in> {0..<?n}"
    then have d: "d < ?n" by simp
    from assms(3) d have "0 \<le> pos ! d" and "pos ! d < real_of_int (sizes field ! d - 1)"
      by simp_all
    then have "0 \<le> \<lfloor>pos ! d\<rfloor>" and "\<lfloor>pos ! d\<rfloor> < sizes field ! d - 1"
      by (simp_all add: floor_less_iff)
    moreover have "int (corner_bit i d) \<le> 1"
      using corner_bit_le1 [of i d] by simp
    ultimately show "0 \<le> ?floored ! d + int (corner_bit i d)
         \<and> ?floored ! d + int (corner_bit i d) + 0 < sizes field ! d"
      using d by simp
  qed
  have "multilerp field pos 0 =
          Some (map (\<lambda>i. (corner_index field ?floored i, corner_weight ?t ?n i)) [0..<2 ^ ?n])"
    using assms(1,2) inside
    by (simp add: multilerp_def MAX_DIM_def Let_def multilerp_corner_loop)
  moreover have "sum_list (map snd
      (map (\<lambda>i. (corner_index field ?floored i, corner_weight ?t ?n i)) [0..<2 ^ ?n])) = 1"
    using corner_weight_sum [of ?t ?n] by (simp add: comp_def)
  ultimately show ?thesis by simp
qed

theorem multilerp_partition_of_unity_witness:
  "\<exists>samples. multilerp (new_field [3, 3]) [1 / 4, 3 / 2] 0 = Some samples
      \<and> length samples = 2 ^ length (sizes (new_field [3, 3]))
      \<and> sum_list (map snd samples) = 1"
  using multilerp_partition_of_unity [of "new_field [3, 3]" "[1 / 4, 3 / 2]"]
  by (simp add: new_field_def nth_Cons' less_Suc_eq)

section \<open>Renormalised value constraints\<close>

lemma add_value_sample_loop:
  "foldl (add_value_sample r w) (ts, s) samples =
     (ts @ value_row r w samples, s + sum_list (map val (value_row r w samples)))"
  by (induction samples arbitrary: ts s) (simp_all add: add_value_sample_def value_row_def Let_def add.assoc)

lemma row_coefficients_append:
  "row_coefficients (ts @ us) r = row_coefficients ts r @ row_coefficients us r"
  by (simp add: row_coefficients_def)

lemma row_coefficients_other:
  "\<forall>t \<in> set ts. row t \<noteq> r \<Longrightarrow> row_coefficients ts r = []"
  by (simp add: row_coefficients_def filter_empty_conv)

lemma row_coefficients_same:
  "\<forall>t \<in> set ts. row t = r \<Longrightarrow> row_coefficients ts r = map val ts"
  by (simp add: row_coefficients_def)

text \<open>
  C2. For a nonzero constraint weight and a position at which \<^verbatim>\<open>multilerp\<close> admits at
  least one corner (also when it admits fewer than \<open>2^N\<close>), \<^verbatim>\<open>add_value_constraint\<close>
  returns true, appends one triplet per sample, all of them in the new row \<open>len(rhs)\<close>, and
  appends exactly one \<open>rhs\<close> entry: the target value times the sum of the appended
  coefficients. When the system appended to has no triplet in a row that does not exist yet
  (as in every assembled system), the appended coefficients are all the coefficients the
  resulting system holds in the new row.
\<close>

theorem add_value_constraint_renormalized:
  assumes "constraint_weight \<noteq> 0"
    and "multilerp field pos 0 = Some samples"
    and "samples \<noteq> []"
  shows "add_value_constraint field pos target constraint_weight =
           Some (True, field\<lparr>eq :=
             \<lparr>triplets = triplets (eq field)
                 @ value_row (int (length (rhs (eq field)))) constraint_weight samples,
               rhs = rhs (eq field)
                 @ [target * sum_list (map val
                      (value_row (int (length (rhs (eq field)))) constraint_weight samples))]\<rparr>\<rparr>)
       \<and> (\<forall>t \<in> set (value_row (int (length (rhs (eq field)))) constraint_weight samples).
             row t = int (length (rhs (eq field))))
       \<and> ((\<forall>t \<in> set (triplets (eq field)). row t < int (length (rhs (eq field))))
            \<longrightarrow> row_coefficients
                  (triplets (eq field)
                     @ value_row (int (length (rhs (eq field)))) constraint_weight samples)
                  (int (length (rhs (eq field))))
                = map val (value_row (int (length (rhs (eq field)))) constraint_weight samples))"
proof -
  let ?r = "int (length (rhs (eq field)))"
  let ?new = "value_row ?r constraint_weight samples"
  have new_rows: "\<forall>t \<in> set ?new. row t = ?r"
    by (simp add: value_row_def)
  then have new: "row_coefficients ?new ?r = map val ?new"
    by (rule row_coefficients_same)
  have old: "row_coefficients (triplets (eq field)) ?r = []"
    if "\<forall>t \<in> set (triplets (eq field)). row t < ?r"
    using that by (intro row_coefficients_other) auto
  have "add_value_constraint field pos target constraint_weight =
          Some (True, field\<lparr>eq := \<lparr>triplets = triplets (eq field) @ ?new,
                 rhs = rhs (eq field) @ [target * sum_list (map val ?new)]\<rparr>\<rparr>)"
    using assms by (simp add: add_value_constraint_def add_value_sample_loop Let_def)
  then show ?thesis
    using new_rows old new by (simp add: row_coefficients_append)
qed

theorem add_value_constraint_renormalized_witness:
  "add_value_constraint (new_field [5]) [4] 3 2 =
     Some (True, (new_field [5])\<lparr>eq := \<lparr>triplets = [\<lparr>row = 0, col = 4, val = 2\<rparr>], rhs = [6]\<rparr>\<rparr>)
 \<and> row_coefficients [\<lparr>row = 0, col = 4, val = 2\<rparr>] 0 = [2]"
proof -
  have h: "multilerp (new_field [5]) [4] 0 = Some [(4, 1)]"
    by code_simp
  show ?thesis
    using add_value_constraint_renormalized [OF _ h, of 2 3]
    by (simp add: value_row_def row_coefficients_def new_field_def empty_equation_def)
qed

section \<open>Rejection below the lattice\<close>

lemma cell_index_loop_negative:
  "\<exists>d \<in> set ds. \<lfloor>pos ! d\<rfloor> < 0 \<Longrightarrow> cell_index_loop field pos index ds = - 1"
  by (induction ds arbitrary: index) (auto simp: Let_def)

text \<open>
  C9. With the nearest-neighbour or the cell-edges kernel, if the floor of some coordinate
  \<open>pos[d]\<close> is negative, \<^verbatim>\<open>add_gradient_constraint\<close> returns false and leaves the
  system as it was (no triplet, no \<open>rhs\<close> entry): \<^verbatim>\<open>cell_index\<close> checks the lower bound
  \<open>0 \<le> floor(pos[d])\<close> as well as the upper one.
\<close>

theorem add_gradient_constraint_rejects_negative:
  assumes "gkernel = kNearestNeighbor \<or> gkernel = kCellEdges"
    and "d < length (sizes field)" and "\<lfloor>pos ! d\<rfloor> < 0"
  shows "add_gradient_constraint field pos gradient constraint_weight gkernel = Some (False, field)"
proof -
  have "cell_index field pos = - 1"
    unfolding cell_index_def using assms(2,3)
    by (intro cell_index_loop_negative) auto
  then show ?thesis
    using assms(1) by (auto simp: add_gradient_constraint_def)
qed

theorem add_gradient_constraint_rejects_negative_witness:
  "add_gradient_constraint (new_field [3, 3]) [1, - 1 / 2] [1, 0] 1 kCellEdges
     = Some (False, new_field [3, 3])"
  using add_gradient_constraint_rejects_negative
    [of kCellEdges 1 "new_field [3, 3]" "[1, - 1 / 2]" "[1, 0]" 1]
  by (simp add: new_field_def)

section \<open>Row density\<close>

lemma row_dense_empty: "row_dense empty_equation"
  by (simp add: row_dense_def empty_equation_def)

lemma row_dense_append_row:
  assumes "row_dense e" and "new \<noteq> []"
    and "\<forall>t \<in> set new. row t = int (length (rhs e))"
  shows "row_dense \<lparr>triplets = triplets e @ new, rhs = rhs e @ [b]\<rparr>"
proof -
  obtain t0 where t0: "t0 \<in> set new"
    using assms(2) by (cases new) auto
  have "\<exists>t \<in> set (triplets e) \<union> set new. row t = int r" if "r < Suc (length (rhs e))" for r
  proof (cases "r < length (rhs e)")
    case True
    then show ?thesis
      using assms(1) by (auto simp: row_dense_def)
  next
    case False
    with that have "r = length (rhs e)" by simp
    then show ?thesis
      using t0 assms(3) by auto
  qed
  moreover have "0 \<le> row t \<and> row t < int (Suc (length (rhs e)))"
    if "t \<in> set (triplets e) \<union> set new" for t
    using that assms(1,3) by (auto simp: row_dense_def)
  ultimately show ?thesis
    by (simp add: row_dense_def)
qed

lemma row_dense_add_equation: "row_dense e \<Longrightarrow> row_dense (add_equation e w b pairs)"
proof (cases "w = 0")
  case True
  assume "row_dense e"
  with True show ?thesis by (simp add: add_equation_def)
next
  case False
  assume dense: "row_dense e"
  show ?thesis
  proof (cases "\<forall>p \<in> set pairs. snd p = 0")
    case True
    then have "filter (\<lambda>p. snd p \<noteq> 0) pairs = []"
      by (simp add: filter_empty_conv)
    with True False dense show ?thesis
      by (simp add: add_equation_unfold row_dense_def)
  next
    case nonzero: False
    then have "filter (\<lambda>p. snd p \<noteq> 0) pairs \<noteq> []"
      by (simp add: filter_empty_conv)
    then have "row_dense \<lparr>triplets = triplets e @
        map (\<lambda>p. \<lparr>row = int (length (rhs e)), col = fst p, val = snd p * w\<rparr>)
          (filter (\<lambda>p. snd p \<noteq> 0) pairs), rhs = rhs e @ [b * w]\<rparr>"
      using dense by (intro row_dense_append_row) auto
    with nonzero False show ?thesis
      by (auto simp: add_equation_unfold)
  qed
qed

lemma foldl_invariant:
  assumes "\<And>s x. P s \<Longrightarrow> P (f s x)" and "P s"
  shows "P (foldl f s xs)"
  using assms(2) by (induction xs arbitrary: s) (simp_all add: assms(1))

lemma row_dense_value_constraint:
  assumes "row_dense (eq field)"
    and "add_value_constraint field pos target w = Some (b, field')"
  shows "row_dense (eq field')"
proof (cases "w = 0")
  case True
  with assms show ?thesis by (simp add: add_value_constraint_def)
next
  case False
  from assms(2) False obtain samples where s: "multilerp field pos 0 = Some samples"
    by (auto simp: add_value_constraint_def split: option.splits)
  show ?thesis
  proof (cases "samples = []")
    case True
    with assms s False show ?thesis by (simp add: add_value_constraint_def)
  next
    case nonempty: False
    let ?r = "int (length (rhs (eq field)))"
    have "row_dense \<lparr>triplets = triplets (eq field) @ value_row ?r w samples,
        rhs = rhs (eq field) @ [(sum_list (map val (value_row ?r w samples))) * target]\<rparr>"
      using assms(1) nonempty by (intro row_dense_append_row) (auto simp: value_row_def)
    with assms(2) s False nonempty show ?thesis
      by (auto simp: add_value_constraint_def add_value_sample_loop Let_def)
  qed
qed

lemma row_dense_nearest_neighbor_dim:
  "row_dense (eq field) \<Longrightarrow> row_dense (eq (nearest_neighbor_dim index gradient w field d))"
  by (simp add: nearest_neighbor_dim_def row_dense_add_equation)

lemma cell_edges_corner_loop:
  "foldl (cell_edges_corner field index d r term_weight) ts corners =
     ts @ map (\<lambda>corner.
          \<lparr>row = r, col = cell_edges_corner_index field index corner,
            val = (if drop_bit d corner mod 2 \<noteq> 0 then 1 else - 1) * term_weight\<rparr>) corners"
  by (induction corners arbitrary: ts) (simp_all add: cell_edges_corner_def Let_def)

lemma row_dense_cell_edges_dim:
  assumes "row_dense (eq field)"
  shows "row_dense (eq (cell_edges_dim index gradient w field d))"
proof -
  have "[0..<(2::nat) ^ length (sizes field)] \<noteq> []"
    by simp
  then show ?thesis
    using assms
    by (simp add: cell_edges_dim_def Let_def cell_edges_corner_loop del: upt_eq_Nil_conv)
       (intro row_dense_append_row, auto)
qed

lemma linear_interpolation_sample_loop:
  "foldl (linear_interpolation_sample field d r w) (ts, s) samples =
     (ts @ concat (map (\<lambda>sample.
             [\<lparr>row = r, col = fst sample + 0, val = - (snd sample * w)\<rparr>,
              \<lparr>row = r, col = fst sample + strides field ! d, val = snd sample * w\<rparr>]) samples),
      s + sum_list (map (\<lambda>sample. snd sample * w) samples))"
  by (induction samples arbitrary: ts s)
     (simp_all add: linear_interpolation_sample_def Let_def add.assoc)

lemma row_dense_linear_interpolation_dim:
  assumes "row_dense (eq field)" and "samples \<noteq> []"
  shows "row_dense (eq (linear_interpolation_dim samples gradient w field d))"
proof -
  let ?r = "int (length (rhs (eq field)))"
  let ?new = "concat (map (\<lambda>sample.
             [\<lparr>row = ?r, col = fst sample + 0, val = - (snd sample * w)\<rparr>,
              \<lparr>row = ?r, col = fst sample + strides field ! d, val = snd sample * w\<rparr>])
           samples)"
  have "?new \<noteq> []"
    using assms(2) by (cases samples) auto
  then have "row_dense \<lparr>triplets = triplets (eq field) @ ?new, rhs = rhs (eq field) @ [b]\<rparr>"
    for b
    using assms(1) by (intro row_dense_append_row) auto
  then show ?thesis
    by (simp add: linear_interpolation_dim_def Let_def linear_interpolation_sample_loop)
qed

lemma row_dense_gradient_constraint:
  assumes "row_dense (eq field)"
    and "add_gradient_constraint field pos gradient w gkernel = Some (b, field')"
  shows "row_dense (eq field')"
proof (cases "w = 0")
  case True
  with assms show ?thesis by (simp add: add_gradient_constraint_def)
next
  case False
  show ?thesis
  proof (cases gkernel)
    case kNearestNeighbor
    have "row_dense (eq (foldl (nearest_neighbor_dim (cell_index field pos) gradient w) field ds))"
      for ds
      by (rule foldl_invariant [where P = "\<lambda>f. row_dense (eq f)"])
         (simp_all add: row_dense_nearest_neighbor_dim assms(1))
    with assms False kNearestNeighbor show ?thesis
      by (auto simp: add_gradient_constraint_def Let_def split: if_splits)
  next
    case kCellEdges
    have "row_dense (eq (foldl (cell_edges_dim (cell_index field pos) gradient w) field ds))"
      for ds
      by (rule foldl_invariant [where P = "\<lambda>f. row_dense (eq f)"])
         (simp_all add: row_dense_cell_edges_dim assms(1))
    with assms False kCellEdges show ?thesis
      by (auto simp: add_gradient_constraint_def Let_def split: if_splits)
  next
    case kLinearInteprolation
    have "row_dense (eq (foldl (linear_interpolation_dim samples gradient w) field ds))"
      if "samples \<noteq> []" for samples ds
      by (rule foldl_invariant [where P = "\<lambda>f. row_dense (eq f)"])
         (simp_all add: row_dense_linear_interpolation_dim assms(1) that)
    with assms False kLinearInteprolation show ?thesis
      by (auto simp: add_gradient_constraint_def Let_def split: if_splits option.splits)
  qed
qed

lemma row_dense_cross_partial_dim:
  "row_dense e \<Longrightarrow> row_dense (cross_partial_dim field weights coordinate index d e od)"
  by (simp add: cross_partial_dim_def row_dense_add_equation)

lemma row_dense_model_constraint:
  assumes "row_dense (eq field)"
  shows "row_dense (eq (add_model_constraint field weights coordinate index d))"
proof -
  have "row_dense (foldl (cross_partial_dim field weights coordinate index d) e ds)"
    if "row_dense e" for e ds
    by (rule foldl_invariant [where P = row_dense])
       (simp_all add: row_dense_cross_partial_dim that)
  then show ?thesis
    using assms by (simp add: add_model_constraint_def Let_def row_dense_add_equation)
qed

lemma row_dense_field_constraints_cell:
  "row_dense (eq field) \<Longrightarrow> row_dense (eq (add_field_constraints_cell weights field index))"
  unfolding add_field_constraints_cell_def Let_def
  by (rule foldl_invariant [where P = "\<lambda>f. row_dense (eq f)"])
     (simp_all add: row_dense_model_constraint)

lemma row_dense_field_constraints:
  "row_dense (eq field) \<Longrightarrow> row_dense (eq (add_field_constraints field weights))"
  unfolding add_field_constraints_def Let_def
  by (rule foldl_invariant [where P = "\<lambda>f. row_dense (eq f)"])
     (simp_all add: row_dense_field_constraints_cell)

lemma row_dense_assemble_op:
  "row_dense (eq field) \<Longrightarrow> assemble_op field x = Some field' \<Longrightarrow> row_dense (eq field')"
  by (cases x)
     (auto simp: row_dense_add_equation row_dense_model_constraint row_dense_field_constraints
        dest: row_dense_value_constraint row_dense_gradient_constraint)

lemma row_dense_assemble:
  "row_dense (eq field) \<Longrightarrow> assemble field xs = Some field' \<Longrightarrow> row_dense (eq field')"
  by (induction xs arbitrary: field)
     (auto split: option.splits dest: row_dense_assemble_op)

text \<open>The assembly operations never change the lattice, and abort only on its dimension.\<close>

lemma multilerp_None:
  "multilerp field pos extra_bound = None
     \<longleftrightarrow> \<not> (1 \<le> length (sizes field) \<and> length (sizes field) \<le> MAX_DIM)"
  by (simp add: multilerp_def Let_def)

lemma sizes_value_constraint:
  "add_value_constraint field pos target w = Some (b, field') \<Longrightarrow> sizes field' = sizes field"
  by (auto simp: add_value_constraint_def Let_def split: if_splits option.splits)

lemma sizes_gradient_constraint:
  assumes "add_gradient_constraint field pos gradient w gkernel = Some (b, field')"
  shows "sizes field' = sizes field"
proof -
  have nn: "sizes (foldl (nearest_neighbor_dim index gradient w) field ds) = sizes field"
    for index ds
    by (rule foldl_invariant [where P = "\<lambda>f. sizes f = sizes field"])
       (simp_all add: nearest_neighbor_dim_def)
  have ce: "sizes (foldl (cell_edges_dim index gradient w) field ds) = sizes field"
    for index ds
    by (rule foldl_invariant [where P = "\<lambda>f. sizes f = sizes field"])
       (simp_all add: cell_edges_dim_def Let_def)
  have li: "sizes (foldl (linear_interpolation_dim samples gradient w) field ds) = sizes field"
    for samples ds
    by (rule foldl_invariant [where P = "\<lambda>f. sizes f = sizes field"])
       (simp_all add: linear_interpolation_dim_def Let_def)
  show ?thesis
    using assms
    by (cases gkernel)
       (auto simp: add_gradient_constraint_def Let_def nn ce li split: if_splits option.splits)
qed

lemma sizes_model_constraint:
  "sizes (add_model_constraint field weights coordinate index d) = sizes field"
  by (simp add: add_model_constraint_def Let_def)

lemma sizes_field_constraints_cell:
  "sizes (add_field_constraints_cell weights field index) = sizes field"
  unfolding add_field_constraints_cell_def Let_def
  by (rule foldl_invariant [where P = "\<lambda>f. sizes f = sizes field"])
     (simp_all add: sizes_model_constraint)

lemma sizes_field_constraints: "sizes (add_field_constraints field weights) = sizes field"
  unfolding add_field_constraints_def Let_def
  by (rule foldl_invariant [where P = "\<lambda>f. sizes f = sizes field"])
     (simp_all add: sizes_field_constraints_cell)

lemma sizes_assemble_op: "assemble_op field x = Some field' \<Longrightarrow> sizes field' = sizes field"
  by (cases x)
     (auto simp: sizes_model_constraint sizes_field_constraints
        dest: sizes_value_constraint sizes_gradient_constraint)

lemma assemble_op_None:
  assumes "assemble_op field x = None"
  shows "\<not> (1 \<le> length (sizes field) \<and> length (sizes field) \<le> MAX_DIM)"
proof (cases x)
  case (ValueConstraint pos target w)
  with assms have "multilerp field pos 0 = None"
    by (auto simp: add_value_constraint_def Let_def split: if_splits option.splits)
  then show ?thesis by (simp add: multilerp_None)
next
  case (GradientConstraint pos gradient w gkernel)
  with assms have
    "multilerp field (map (\<lambda>d. pos ! d - 0.5) [0..<length (sizes field)]) 1 = None"
    by (cases gkernel)
       (auto simp: add_gradient_constraint_def Let_def split: if_splits option.splits)
  then show ?thesis by (simp add: multilerp_None)
qed (use assms in simp_all)

lemma assemble_None:
  "assemble field xs = None
     \<Longrightarrow> \<not> (1 \<le> length (sizes field) \<and> length (sizes field) \<le> MAX_DIM)"
proof (induction xs arbitrary: field)
  case Nil
  then show ?case by simp
next
  case (Cons x xs)
  show ?case
  proof (cases "assemble_op field x")
    case None
    then show ?thesis by (rule assemble_op_None)
  next
    case (Some field')
    with Cons.prems have "assemble field' xs = None" by simp
    then have "\<not> (1 \<le> length (sizes field') \<and> length (sizes field') \<le> MAX_DIM)"
      by (rule Cons.IH)
    then show ?thesis
      using sizes_assemble_op [OF Some] by simp
  qed
qed

text \<open>
  C4. A run of assembly operations (value constraints, gradient constraints under any of the
  three kernels, model constraints for one cell and dimension or for the whole lattice, and
  direct uses of the append primitive) that starts from the empty system either aborts,
  which only happens when the lattice dimension is outside \<open>[1, MAX_DIM]\<close>, or ends in a
  system that is row dense: every triplet's row index is below \<open>len(rhs)\<close> and every
  index in \<open>[0, len(rhs))\<close> is the row of at least one triplet.
\<close>

theorem assemble_row_dense:
  assumes "eq field = empty_equation"
  shows "case assemble field ops of
           None \<Rightarrow> \<not> (1 \<le> length (sizes field) \<and> length (sizes field) \<le> MAX_DIM)
         | Some field' \<Rightarrow> row_dense (eq field')"
proof (cases "assemble field ops")
  case None
  then show ?thesis
    using assemble_None [of field ops] by simp
next
  case (Some field')
  have "row_dense (eq field)"
    by (simp add: assms row_dense_empty)
  then have "row_dense (eq field')"
    using Some by (rule row_dense_assemble)
  with Some show ?thesis by simp
qed

theorem assemble_row_dense_witness:
  "assemble (new_field [3, 3])
     [FieldConstraints (S1_weights\<lparr>model_2 := 1\<rparr>),
      ValueConstraint [2, 1 / 2] 0 1,
      GradientConstraint [1, 1] [1, 0] 1 kLinearInteprolation,
      Equation 2 3 [(0, 0)]] \<noteq> None
 \<and> row_dense (eq (the (assemble (new_field [3, 3])
     [FieldConstraints (S1_weights\<lparr>model_2 := 1\<rparr>),
      ValueConstraint [2, 1 / 2] 0 1,
      GradientConstraint [1, 1] [1, 0] 1 kLinearInteprolation,
      Equation 2 3 [(0, 0)]])))"
proof -
  let ?ops = "[FieldConstraints (S1_weights\<lparr>model_2 := 1\<rparr>),
      ValueConstraint [2, 1 / 2] 0 1,
      GradientConstraint [1, 1] [1, 0] 1 kLinearInteprolation,
      Equation 2 3 [(0, 0)]]"
  have "1 \<le> length (sizes (new_field [3, 3])) \<and> length (sizes (new_field [3, 3])) \<le> MAX_DIM"
    by (simp add: new_field_def MAX_DIM_def)
  moreover have "eq (new_field [3, 3]) = empty_equation"
    by (simp add: new_field_def)
  ultimately show ?thesis
    using assemble_row_dense [of "new_field [3, 3]" ?ops]
    by (cases "assemble (new_field [3, 3]) ?ops") simp_all
qed

section \<open>The cell-edges gradient kernel\<close>

lemma LinearEquation_eta: "\<lparr>triplets = triplets e, rhs = rhs e\<rparr> = (e :: LinearEquation)"
  by (cases e) simp

lemma cell_edges_corner_index_eq:
  "cell_edges_corner_index field index corner =
     corner_of_cell (strides field) (length (sizes field)) index corner"
proof -
  have "foldl (\<lambda>corner_index oa. corner_index + strds ! oa * int (drop_bit oa corner mod 2))
          index ds
      = index + sum_list (map (\<lambda>a. strds ! a * int (drop_bit a corner mod 2)) ds)"
    for strds :: "int list" and ds
    by (induction ds arbitrary: index) simp_all
  then show ?thesis
    by (simp add: cell_edges_corner_index_def corner_of_cell_def corner_bit_def and_one_eq
          Let_def)
qed

lemma cell_edges_dim_eq:
  "cell_edges_dim index gradient w field d =
     field\<lparr>eq := \<lparr>triplets = triplets (eq field)
                      @ cell_edges_row (strides field) (length (sizes field)) index w
                          (int (length (rhs (eq field)))) d,
                    rhs = rhs (eq field) @ [w * gradient ! d]\<rparr>\<rparr>"
proof -
  have "(drop_bit d c mod 2 \<noteq> 0) = (corner_bit c d = 1)" for c :: nat
    by (simp add: corner_bit_def and_one_eq)
  then show ?thesis
    by (simp add: cell_edges_dim_def Let_def cell_edges_corner_loop cell_edges_row_def
          cell_edges_corner_index_eq)
qed

lemma cell_edges_dim_loop:
  "foldl (cell_edges_dim index gradient w) field [0..<n] =
     field\<lparr>eq := \<lparr>triplets = triplets (eq field)
                      @ concat (map (\<lambda>d. cell_edges_row (strides field) (length (sizes field))
                                            index w (int (length (rhs (eq field))) + int d) d)
                                  [0..<n]),
                    rhs = rhs (eq field) @ map (\<lambda>d. w * gradient ! d) [0..<n]\<rparr>\<rparr>"
proof (induction n)
  case 0
  show ?case by (simp add: LinearEquation_eta)
next
  case (Suc n)
  have "foldl (cell_edges_dim index gradient w) field [0..<Suc n] =
          cell_edges_dim index gradient w (foldl (cell_edges_dim index gradient w) field [0..<n]) n"
    by simp
  also have "\<dots> = cell_edges_dim index gradient w
      (field\<lparr>eq := \<lparr>triplets = triplets (eq field)
                      @ concat (map (\<lambda>d. cell_edges_row (strides field) (length (sizes field))
                                            index w (int (length (rhs (eq field))) + int d) d)
                                  [0..<n]),
                    rhs = rhs (eq field) @ map (\<lambda>d. w * gradient ! d) [0..<n]\<rparr>\<rparr>) n"
    by (simp only: Suc.IH)
  also have "\<dots> = field\<lparr>eq := \<lparr>triplets = triplets (eq field)
                      @ concat (map (\<lambda>d. cell_edges_row (strides field) (length (sizes field))
                                            index w (int (length (rhs (eq field))) + int d) d)
                                  [0..<Suc n]),
                    rhs = rhs (eq field) @ map (\<lambda>d. w * gradient ! d) [0..<Suc n]\<rparr>\<rparr>"
    by (simp add: cell_edges_dim_eq)
  finally show ?case .
qed

text \<open>
  C8. For a nonzero weight \<open>w\<close> and a position at which \<^verbatim>\<open>cell_index\<close> succeeds,
  \<^verbatim>\<open>add_gradient_constraint\<close> with the cell-edges kernel returns true and appends, for
  each dimension \<open>d\<close> in turn, one new row of exactly \<open>2^N\<close> triplets, one per corner
  \<open>idx + \<Sum>\<^sub>a strides[a] * bit\<^sub>a(c)\<close> of the cell, with coefficient \<open>w * 2 / 2^N\<close> when bit
  \<open>d\<close> of the corner is 1 and \<open>- (w * 2 / 2^N)\<close> otherwise, and the \<open>rhs\<close> entry
  \<open>w * g[d]\<close>.
\<close>

theorem add_gradient_constraint_cell_edges:
  assumes "w \<noteq> 0" and "0 \<le> cell_index field pos"
  shows "add_gradient_constraint field pos g w kCellEdges =
           Some (True, field\<lparr>eq :=
             \<lparr>triplets = triplets (eq field)
                 @ cell_edges_rows (strides field) (length (sizes field))
                     (cell_index field pos) w (int (length (rhs (eq field)))),
               rhs = rhs (eq field) @ map (\<lambda>d. w * g ! d) [0..<length (sizes field)]\<rparr>\<rparr>)
       \<and> (\<forall>d < length (sizes field).
             length (cell_edges_row (strides field) (length (sizes field))
                       (cell_index field pos) w (int (length (rhs (eq field))) + int d) d)
               = 2 ^ length (sizes field))"
  using assms
  by (simp add: add_gradient_constraint_def Let_def cell_edges_dim_loop cell_edges_rows_def
        cell_edges_row_def)

theorem add_gradient_constraint_cell_edges_witness:
  "add_gradient_constraint (new_field [3, 3]) [1, 1] [1, 0] 1 kCellEdges =
     Some (True, (new_field [3, 3])\<lparr>eq :=
       \<lparr>triplets =
          [\<lparr>row = 0, col = 4, val = - (1 / 2)\<rparr>, \<lparr>row = 0, col = 5, val = 1 / 2\<rparr>,
           \<lparr>row = 0, col = 7, val = - (1 / 2)\<rparr>, \<lparr>row = 0, col = 8, val = 1 / 2\<rparr>,
           \<lparr>row = 1, col = 4, val = - (1 / 2)\<rparr>, \<lparr>row = 1, col = 5, val = - (1 / 2)\<rparr>,
           \<lparr>row = 1, col = 7, val = 1 / 2\<rparr>, \<lparr>row = 1, col = 8, val = 1 / 2\<rparr>],
        rhs = [1, 0]\<rparr>\<rparr>)"
proof -
  have idx: "cell_index (new_field [3, 3]) [1, 1] = 4"
    by code_simp
  have rows: "cell_edges_rows [1, 3] (Suc (Suc 0)) 4 1 0 =
          [\<lparr>row = 0, col = 4, val = - (1 / 2)\<rparr>, \<lparr>row = 0, col = 5, val = 1 / 2\<rparr>,
           \<lparr>row = 0, col = 7, val = - (1 / 2)\<rparr>, \<lparr>row = 0, col = 8, val = 1 / 2\<rparr>,
           \<lparr>row = 1, col = 4, val = - (1 / 2)\<rparr>, \<lparr>row = 1, col = 5, val = - (1 / 2)\<rparr>,
           \<lparr>row = 1, col = 7, val = 1 / 2\<rparr>, \<lparr>row = 1, col = 8, val = 1 / 2\<rparr>]"
    by code_simp
  have upt2: "[0..<2] = [0, 1]"
    by code_simp
  show ?thesis
    using add_gradient_constraint_cell_edges [of 1 "new_field [3, 3]" "[1, 1]" "[1, 0]"]
    by (simp add: idx) (simp add: new_field_def empty_equation_def rows upt2)
qed

section \<open>Error attribution\<close>

lemma accumulate_rows_loop:
  assumes "length row_errors = n" and "length sum_of_value_sq = n"
    and "\<forall>t \<in> set ts. 0 \<le> row t \<and> row t < int n"
  shows "foldl (accumulate_rows x) (row_errors, sum_of_value_sq) ts =
           (map (\<lambda>r. row_errors ! r
                  - sum_list (map (\<lambda>t. val t * x ! nat (col t))
                      (filter (\<lambda>t. row t = int r) ts))) [0..<n],
            map (\<lambda>r. sum_of_value_sq ! r + row_energy ts r) [0..<n])"
  using assms
proof (induction ts arbitrary: row_errors sum_of_value_sq)
  case Nil
  then show ?case
    using map_nth [of row_errors] map_nth [of sum_of_value_sq]
    by (simp add: row_energy_def)
next
  case (Cons t ts)
  let ?r = "nat (row t)"
  let ?re = "row_errors[?r := row_errors ! ?r - x ! nat (col t) * val t]"
  let ?sq = "sum_of_value_sq[?r := sum_of_value_sq ! ?r + val t * val t]"
  have r: "?r < n" and rt: "(row t = int k) = (?r = k)" for k
    using Cons.prems(3) by auto
  have step: "foldl (accumulate_rows x) (row_errors, sum_of_value_sq) (t # ts)
            = foldl (accumulate_rows x) (?re, ?sq) ts"
    by (simp add: accumulate_rows_def Let_def)
  have ih: "foldl (accumulate_rows x) (?re, ?sq) ts =
           (map (\<lambda>r. ?re ! r
                  - sum_list (map (\<lambda>t. val t * x ! nat (col t))
                      (filter (\<lambda>t. row t = int r) ts))) [0..<n],
            map (\<lambda>r. ?sq ! r + row_energy ts r) [0..<n])"
    using Cons.prems by (intro Cons.IH) simp_all
  have errors: "map (\<lambda>r. ?re ! r
                  - sum_list (map (\<lambda>t. val t * x ! nat (col t))
                      (filter (\<lambda>t. row t = int r) ts))) [0..<n]
      = map (\<lambda>r. row_errors ! r
                  - sum_list (map (\<lambda>t. val t * x ! nat (col t))
                      (filter (\<lambda>t. row t = int r) (t # ts)))) [0..<n]"
    using Cons.prems(1) by (intro map_cong) (auto simp: nth_list_update rt)
  have squares: "map (\<lambda>r. ?sq ! r + row_energy ts r) [0..<n]
      = map (\<lambda>r. sum_of_value_sq ! r + row_energy (t # ts) r) [0..<n]"
    using Cons.prems(2) by (intro map_cong) (auto simp: nth_list_update row_energy_def rt)
  show ?case
    by (simp only: step ih errors squares)
qed

lemma row_energy_nonneg: "0 \<le> row_energy ts r"
  unfolding row_energy_def by (rule sum_list_nonneg) auto

lemma row_energy_pos:
  "\<exists>t \<in> set ts. row t = int r \<and> val t \<noteq> 0 \<Longrightarrow> 0 < row_energy ts r"
proof (induction ts)
  case Nil
  then show ?case by simp
next
  case (Cons t ts)
  have tail: "0 \<le> row_energy ts r"
    by (rule row_energy_nonneg)
  show ?case
  proof (cases "row t = int r \<and> val t \<noteq> 0")
    case True
    then have "0 < val t * val t"
      by (simp add: power2_eq_square [symmetric])
    with True tail show ?thesis
      by (simp add: row_energy_def)
  next
    case False
    with Cons.prems have "\<exists>t \<in> set ts. row t = int r \<and> val t \<noteq> 0"
      by auto
    then have "0 < row_energy ts r"
      by (rule Cons.IH)
    moreover have "0 \<le> val t * val t"
      by simp
    ultimately show ?thesis
      by (auto simp: row_energy_def intro: add_nonneg_pos)
  qed
qed

lemma sum_list_update_add:
  "c < length h \<Longrightarrow> sum_list (h[c := h ! c + y]) = sum_list h + (y :: real)"
  by (induction h arbitrary: c) (auto simp: nth_Cons' split: nat.splits)

lemma blame_length: "length (blame sq errs h t) = length h"
  by (simp add: blame_def Let_def)

lemma blame_loop_length: "length (foldl (blame sq errs) h ts) = length h"
  by (rule foldl_invariant [where P = "\<lambda>h'. length h' = length h"]) (simp_all add: blame_length)

lemma blame_loop_sum:
  "\<forall>t \<in> set ts. 0 \<le> col t \<and> col t < int (length h)
     \<Longrightarrow> sum_list (foldl (blame sq errs) h ts)
         = sum_list h + sum_list (map (blame_share sq errs) ts)"
proof (induction ts arbitrary: h)
  case Nil
  then show ?case by simp
next
  case (Cons t ts)
  have c: "nat (col t) < length h"
    using Cons.prems by auto
  have "sum_list (blame sq errs h t) = sum_list h + blame_share sq errs t"
    using c by (simp add: blame_def blame_share_def Let_def sum_list_update_add)
  moreover have "sum_list (foldl (blame sq errs) (blame sq errs h t) ts)
      = sum_list (blame sq errs h t) + sum_list (map (blame_share sq errs) ts)"
    using Cons.prems by (intro Cons.IH) (simp add: blame_length)
  ultimately show ?case by simp
qed

lemma blame_nonneg:
  assumes "\<forall>v \<in> set h. 0 \<le> v" and "0 \<le> sq ! nat (row t)" and "0 \<le> errs ! nat (row t)"
    and "nat (col t) < length h"
  shows "\<forall>v \<in> set (blame sq errs h t). 0 \<le> v"
proof -
  have "0 \<le> h ! nat (col t)"
    using assms(1,4) by simp
  moreover have "0 \<le> val t * val t / sq ! nat (row t)"
    using assms(2) by (intro divide_nonneg_nonneg) simp_all
  then have "0 \<le> val t * val t / sq ! nat (row t) * errs ! nat (row t)"
    using assms(3) by (rule mult_nonneg_nonneg)
  ultimately
  have "0 \<le> h ! nat (col t) + val t * val t / sq ! nat (row t) * errs ! nat (row t)"
    by (rule add_nonneg_nonneg)
  then show ?thesis
    using assms(1) by (auto simp: blame_def Let_def dest!: set_update_subset_insert [THEN subsetD])
qed

lemma blame_loop_nonneg:
  assumes "\<forall>v \<in> set h. 0 \<le> v"
    and "\<forall>t \<in> set ts. 0 \<le> sq ! nat (row t) \<and> 0 \<le> errs ! nat (row t)
           \<and> nat (col t) < length h"
  shows "\<forall>v \<in> set (foldl (blame sq errs) h ts). 0 \<le> v"
  using assms
proof (induction ts arbitrary: h)
  case Nil
  then show ?case by simp
next
  case (Cons t ts)
  have "\<forall>v \<in> set (blame sq errs h t). 0 \<le> v"
    using Cons.prems by (intro blame_nonneg) simp_all
  then have "\<forall>v \<in> set (foldl (blame sq errs) (blame sq errs h t) ts). 0 \<le> v"
    using Cons.prems(2) by (intro Cons.IH) (simp_all add: blame_length)
  then show ?case by simp
qed

lemma generate_error_map_unfold:
  assumes "\<forall>t \<in> set ts. 0 \<le> row t \<and> row t < int (length b)
              \<and> 0 \<le> col t \<and> col t < int (length x)"
  shows "generate_error_map ts x b =
           Some (foldl (blame (map (row_energy ts) [0..<length b])
                          (map (\<lambda>r. residual ts x b r * residual ts x b r) [0..<length b]))
                   (replicate (length x) 0) ts)"
proof -
  have range: "list_all (triplet_in_range (length b) (length x)) ts"
    using assms by (simp add: list_all_iff triplet_in_range_def)
  have rows: "\<forall>t \<in> set ts. 0 \<le> row t \<and> row t < int (length b)"
    using assms by simp
  have loop: "foldl (accumulate_rows x) (b, replicate (length b) 0) ts =
      (map (residual ts x b) [0..<length b], map (row_energy ts) [0..<length b])"
    using accumulate_rows_loop [of b "length b" "replicate (length b) 0" ts x] rows
    by (simp add: residual_def mult.commute cong: map_cong)
  show ?thesis
    by (simp add: generate_error_map_def range loop Let_def comp_def)
qed

text \<open>
  C10. For triplets whose rows are below \<open>len(rhs)\<close> and whose columns are below
  \<open>len(solution)\<close>, \<^verbatim>\<open>generate_error_map\<close> returns a vector that is as long as the
  solution vector and whose entries are all nonnegative (in exact arithmetic).
\<close>

theorem generate_error_map_shape_nonneg:
  assumes "\<forall>t \<in> set ts. 0 \<le> row t \<and> row t < int (length b)
              \<and> 0 \<le> col t \<and> col t < int (length x)"
  shows "\<exists>heatmap. generate_error_map ts x b = Some heatmap
           \<and> length heatmap = length x \<and> (\<forall>v \<in> set heatmap. 0 \<le> v)"
proof -
  let ?sq = "map (row_energy ts) [0..<length b]"
  let ?errs = "map (\<lambda>r. residual ts x b r * residual ts x b r) [0..<length b]"
  let ?h = "foldl (blame ?sq ?errs) (replicate (length x) 0) ts"
  have "0 \<le> ?sq ! nat (row t) \<and> 0 \<le> ?errs ! nat (row t)
          \<and> nat (col t) < length (replicate (length x) (0::real))"
    if "t \<in> set ts" for t
  proof -
    from assms that have "nat (row t) < length b" and "nat (col t) < length x"
      by auto
    then show ?thesis
      by (simp add: row_energy_nonneg)
  qed
  then have "\<forall>v \<in> set ?h. 0 \<le> v"
    by (intro blame_loop_nonneg) simp_all
  moreover have "length ?h = length x"
    by (simp add: blame_loop_length)
  ultimately show ?thesis
    using generate_error_map_unfold [OF assms] by simp
qed

theorem generate_error_map_shape_nonneg_witness:
  "\<exists>heatmap.
     generate_error_map [\<lparr>row = 0, col = 0, val = 1\<rparr>, \<lparr>row = 0, col = 2, val = - 2\<rparr>]
       [1, 5, 1] [3] = Some heatmap
   \<and> length heatmap = length [1, 5, 1 :: real] \<and> list_all (\<lambda>v. 0 \<le> v) heatmap"
  using generate_error_map_shape_nonneg
    [of "[\<lparr>row = 0, col = 0, val = 1\<rparr>, \<lparr>row = 0, col = 2, val = - 2\<rparr>]" "[3]" "[1, 5, 1]"]
  by (simp add: list_all_iff)

lemma indicator_sum_list:
  "k < n \<Longrightarrow> sum_list (map (\<lambda>r. if k = r then y else 0) [0..<n]) = (y :: real)"
proof (induction n)
  case 0
  then show ?case by simp
next
  case (Suc n)
  show ?case
  proof (cases "k = n")
    case True
    have "map (\<lambda>r. if k = r then y else 0) [0..<n] = map (\<lambda>r. 0) [0..<n]"
      using True by (intro map_cong) auto
    then have "sum_list (map (\<lambda>r. if k = r then y else 0) [0..<n]) = 0"
      by (simp only: sum_list_0)
    then show ?thesis
      using True by simp
  next
    case False
    with Suc show ?thesis by simp
  qed
qed

lemma sum_list_by_row:
  fixes g :: "Triplet \<Rightarrow> real"
  assumes "\<forall>t \<in> set ts. 0 \<le> row t \<and> row t < int n"
  shows "sum_list (map g ts) =
           sum_list (map (\<lambda>r. sum_list (map g (filter (\<lambda>t. row t = int r) ts))) [0..<n])"
  using assms
proof (induction ts)
  case Nil
  then show ?case by simp
next
  case (Cons t ts)
  have k: "nat (row t) < n" and rt: "(row t = int r) = (nat (row t) = r)" for r
    using Cons.prems by auto
  have "sum_list (map (\<lambda>r. sum_list (map g (filter (\<lambda>t. row t = int r) (t # ts)))) [0..<n])
      = sum_list (map (\<lambda>r. (if nat (row t) = r then g t else 0)
                    + sum_list (map g (filter (\<lambda>t. row t = int r) ts))) [0..<n])"
    by (rule arg_cong [where f = sum_list], rule map_cong) (simp_all add: rt)
  also have "\<dots> = sum_list (map (\<lambda>r. if nat (row t) = r then g t else 0) [0..<n])
      + sum_list (map (\<lambda>r. sum_list (map g (filter (\<lambda>t. row t = int r) ts))) [0..<n])"
    by (rule sum_list_addf)
  also have "\<dots> = g t + sum_list (map g ts)"
    using Cons.prems by (simp add: indicator_sum_list [OF k] Cons.IH)
  finally show ?case by simp
qed

text \<open>
  C6. For triplets that are in range (rows below \<open>len(rhs)\<close>, columns below
  \<open>len(solution)\<close>; anything else is undefined behaviour of the C++ code) and such that
  every row of \<open>rhs\<close> has a triplet with a nonzero coefficient, the cells of the heatmap
  returned by \<^verbatim>\<open>generate_error_map\<close> sum to the sum over all rows of the squared residual
  \<open>rhs[r] - \<Sum> v * x[c]\<close> (in exact arithmetic).
\<close>

theorem generate_error_map_conservation:
  assumes "\<forall>t \<in> set ts. 0 \<le> row t \<and> row t < int (length b)
              \<and> 0 \<le> col t \<and> col t < int (length x)"
    and "\<forall>r < length b. \<exists>t \<in> set ts. row t = int r \<and> val t \<noteq> 0"
  shows "\<exists>heatmap. generate_error_map ts x b = Some heatmap
           \<and> sum_list heatmap = sum_list (map (\<lambda>r. (residual ts x b r)\<^sup>2) [0..<length b])"
proof -
  let ?n = "length b"
  let ?sq = "map (row_energy ts) [0..<?n]"
  let ?errs = "map (\<lambda>r. residual ts x b r * residual ts x b r) [0..<?n]"
  let ?h = "foldl (blame ?sq ?errs) (replicate (length x) 0) ts"
  let ?g = "\<lambda>t. val t * val t
              * ((residual ts x b (nat (row t)))\<^sup>2 / row_energy ts (nat (row t)))"
  have rows: "\<forall>t \<in> set ts. 0 \<le> row t \<and> row t < int ?n"
    using assms(1) by simp
  have energy: "row_energy ts r \<noteq> 0" if "r < ?n" for r
    using row_energy_pos [of ts r] assms(2) that by auto
  have "sum_list ?h = sum_list (replicate (length x) 0) + sum_list (map (blame_share ?sq ?errs) ts)"
    using assms(1) by (intro blame_loop_sum) simp
  also have "sum_list (replicate (length x) (0::real)) = 0"
    by (simp add: sum_list_replicate)
  also have "map (blame_share ?sq ?errs) ts = map ?g ts"
  proof (rule map_cong)
    fix t assume "t \<in> set ts"
    with rows have "nat (row t) < ?n" by auto
    then show "blame_share ?sq ?errs t = ?g t"
      by (simp add: blame_share_def energy power2_eq_square)
  qed simp
  also have "sum_list (map ?g ts)
      = sum_list (map (\<lambda>r. sum_list (map ?g (filter (\<lambda>t. row t = int r) ts))) [0..<?n])"
    using rows by (rule sum_list_by_row)
  also have "map (\<lambda>r. sum_list (map ?g (filter (\<lambda>t. row t = int r) ts))) [0..<?n]
      = map (\<lambda>r. (residual ts x b r)\<^sup>2) [0..<?n]"
  proof (rule map_cong)
    fix r assume "r \<in> set [0..<?n]"
    then have r: "r < ?n" by simp
    have same: "map ?g (filter (\<lambda>t. row t = int r) ts)
        = map (\<lambda>t. val t * val t * ((residual ts x b r)\<^sup>2 / row_energy ts r))
            (filter (\<lambda>t. row t = int r) ts)"
      by (rule map_cong) auto
    have factor: "sum_list (map (\<lambda>t. val t * val t * ((residual ts x b r)\<^sup>2 / row_energy ts r))
            (filter (\<lambda>t. row t = int r) ts))
        = row_energy ts r * ((residual ts x b r)\<^sup>2 / row_energy ts r)"
      by (simp only: sum_list_mult_const row_energy_def)
    have cancel: "row_energy ts r * ((residual ts x b r)\<^sup>2 / row_energy ts r)
        = (residual ts x b r)\<^sup>2"
      using energy [OF r] by simp
    show "sum_list (map ?g (filter (\<lambda>t. row t = int r) ts)) = (residual ts x b r)\<^sup>2"
      by (simp only: same factor cancel)
  qed simp
  finally have "sum_list ?h = sum_list (map (\<lambda>r. (residual ts x b r)\<^sup>2) [0..<?n])"
    by simp
  then show ?thesis
    using generate_error_map_unfold [OF assms(1)] by simp
qed

theorem generate_error_map_conservation_witness:
  "\<exists>heatmap.
     generate_error_map [\<lparr>row = 0, col = 0, val = 1\<rparr>, \<lparr>row = 0, col = 1, val = 1\<rparr>]
       [0, 0] [2] = Some heatmap
   \<and> sum_list heatmap = 4"
proof -
  have "sum_list (map (\<lambda>r. (residual [\<lparr>row = 0, col = 0, val = 1\<rparr>,
      \<lparr>row = 0, col = 1, val = 1\<rparr>] [0, 0] [2] r)\<^sup>2) [0..<length [2 :: real]]) = 4"
    by (simp add: residual_def)
  then show ?thesis
    using generate_error_map_conservation
      [of "[\<lparr>row = 0, col = 0, val = 1\<rparr>, \<lparr>row = 0, col = 1, val = 1\<rparr>]" "[2]" "[0, 0]"]
    by simp
qed

section \<open>Lattice coordinates\<close>

lemma sdiv_nonneg_pos: "0 \<le> k \<Longrightarrow> 0 < l \<Longrightarrow> k sdiv l = k div (l :: int)"
  by (cases "k = 0") (simp_all add: signed_divide_int_def)

lemma coordinate_from_index_loop_step:
  "0 \<le> index \<Longrightarrow> 1 \<le> s \<Longrightarrow>
     coordinate_from_index_loop (s # ss) index =
       (index mod s) # coordinate_from_index_loop ss (index div s)"
  by (simp add: sdiv_nonneg_pos smod_mod_positive)

lemma coordinate_from_index_loop_eq:
  "0 \<le> index \<Longrightarrow> \<forall>s \<in> set szs. 1 \<le> s \<Longrightarrow>
     coordinate_from_index_loop szs index = coord_of szs index"
proof (induction szs arbitrary: index)
  case Nil
  show ?case by (simp add: coord_of_def)
next
  case (Cons s ss)
  have s: "1 \<le> s" and ss: "\<forall>s \<in> set ss. 1 \<le> s"
    using Cons.prems(2) by simp_all
  have "0 \<le> index div s"
    using Cons.prems(1) s by (simp add: pos_imp_zdiv_nonneg_iff)
  then have tail: "coordinate_from_index_loop ss (index div s) = coord_of ss (index div s)"
    using ss by (rule Cons.IH)
  have "0 \<le> prod_list (take d ss)" for d
    using ss by (intro prod_list_nonneg) (auto dest!: in_set_takeD)
  then have "index div (s * prod_list (take d ss)) = index div s div prod_list (take d ss)" for d
    by (rule zdiv_zmult2_eq)
  then show ?case
    using Cons.prems(1) s
    by (simp add: coordinate_from_index_loop_step tail coord_of_def map_upt_Suc
          del: upt_Suc coordinate_from_index_loop.simps)
qed

lemma coordinate_shift:
  assumes "\<forall>s \<in> set szs. 1 \<le> s" and "0 \<le> index" and "index < prod_list szs"
    and "d < length szs" and "0 \<le> j"
    and "coordinate_from_index_loop szs index ! d + j < szs ! d"
  shows "0 \<le> index + j * strides_of szs ! d
       \<and> index + j * strides_of szs ! d < prod_list szs
       \<and> coordinate_from_index_loop szs (index + j * strides_of szs ! d)
           = (coordinate_from_index_loop szs index)
               [d := coordinate_from_index_loop szs index ! d + j]"
  using assms
proof (induction szs arbitrary: index d)
  case Nil
  then show ?case by simp
next
  case (Cons s ss)
  have s: "1 \<le> s" and ss: "\<forall>s \<in> set ss. 1 \<le> s"
    using Cons.prems(1) by simp_all
  have q0: "0 \<le> index div s"
    using Cons.prems(2) s by (simp add: pos_imp_zdiv_nonneg_iff)
  have m: "0 \<le> index mod s" "index mod s < s"
    using s by simp_all
  have qP: "index div s < prod_list ss"
  proof (rule ccontr)
    assume "\<not> index div s < prod_list ss"
    then have "prod_list ss * s \<le> index div s * s"
      using s by (intro mult_right_mono) simp_all
    also have "\<dots> \<le> index div s * s + index mod s"
      using m(1) by (simp only: le_add_same_cancel1)
    also have "\<dots> = index"
      by simp
    finally show False
      using Cons.prems(3) by (simp add: mult.commute)
  qed
  have bound: "q * s + r < s * prod_list ss" if "q < prod_list ss" and "r < s" for q r
  proof -
    have "q * s + r < (q + 1) * s"
      using that(2) by (simp add: algebra_simps)
    also have "\<dots> \<le> prod_list ss * s"
      using that(1) s by (intro mult_right_mono) simp_all
    finally show ?thesis by (simp add: mult.commute)
  qed
  show ?case
  proof (cases d)
    case 0
    have j: "index mod s + j < s"
      using Cons.prems(2,6) s 0
      by (simp add: coordinate_from_index_loop_step del: coordinate_from_index_loop.simps)
    have split: "index + j = index div s * s + (index mod s + j)"
      by simp
    have small: "(index mod s + j) div s = 0" "(index mod s + j) mod s = index mod s + j"
      using j m Cons.prems(5) by (simp_all add: div_pos_pos_trivial mod_pos_pos_trivial)
    have nz: "s \<noteq> 0"
      using s by simp
    have "(index div s * s + (index mod s + j)) div s = index div s"
      and "(index div s * s + (index mod s + j)) mod s = index mod s + j"
      by (simp_all only: div_mult_self3 [OF nz] mod_mult_self3 small add_0_right)
    then have dm: "(index + j) div s = index div s" "(index + j) mod s = index mod s + j"
      by (simp_all only: split [symmetric])
    have "index div s * s + (index mod s + j) < s * prod_list ss"
      using qP j by (rule bound)
    then have "index + j < s * prod_list ss"
      by (simp only: split [symmetric])
    then show ?thesis
      using Cons.prems(2,5) s 0 dm
      by (simp add: coordinate_from_index_loop_step del: coordinate_from_index_loop.simps)
  next
    case (Suc d')
    let ?st = "strides_of ss ! d'"
    have d': "d' < length ss"
      using Cons.prems(4) Suc by simp
    have len: "length (strides_of ss) = length ss"
      by (induction ss) simp_all
    have "coordinate_from_index_loop ss (index div s) ! d' + j < ss ! d'"
      using Cons.prems(2,6) s Suc
      by (simp add: coordinate_from_index_loop_step del: coordinate_from_index_loop.simps)
    then have ih: "0 \<le> index div s + j * ?st \<and> index div s + j * ?st < prod_list ss
        \<and> coordinate_from_index_loop ss (index div s + j * ?st)
            = (coordinate_from_index_loop ss (index div s))
                [d' := coordinate_from_index_loop ss (index div s) ! d' + j]"
      using ss q0 qP d' Cons.prems(5) by (intro Cons.IH) simp_all
    have assoc: "index + j * (?st * s) = index + (j * ?st) * s"
      by simp
    have nz: "s \<noteq> 0"
      using s by simp
    have dm: "(index + j * (?st * s)) div s = index div s + j * ?st"
      "(index + j * (?st * s)) mod s = index mod s"
      by (simp_all only: assoc div_mult_self1 [OF nz] mod_mult_self1 add.commute)
    have split: "index + j * (?st * s) = (index div s + j * ?st) * s + index mod s"
      by (simp add: algebra_simps)
    have "0 \<le> (index div s + j * ?st) * s"
      using ih s by (intro mult_nonneg_nonneg) simp_all
    then have nonneg: "0 \<le> index + j * (?st * s)"
      using m by (simp only: split)
    have "(index div s + j * ?st) * s + index mod s < s * prod_list ss"
      using ih m by (intro bound) simp_all
    then have "index + j * (?st * s) < s * prod_list ss"
      by (simp only: split)
    then show ?thesis
      using nonneg s Suc ih dm Cons.prems(2)
      by (simp add: len d' coordinate_from_index_loop_step del: coordinate_from_index_loop.simps)
  qed
qed

section \<open>Finite differences of polynomials\<close>

lemma monomial_eval_update:
  "\<exists>M e. e \<le> sum_list es \<and> (\<forall>v. monomial_eval es (c[d := v]) = M * of_int v ^ e)"
proof (induction es arbitrary: c d)
  case Nil
  have "\<forall>v. monomial_eval [] (c[d := v]) = 1 * of_int v ^ 0"
    by simp
  then show ?case by blast
next
  case (Cons e0 es)
  show ?case
  proof (cases c)
    case Nil
    then have "\<forall>v. monomial_eval (e0 # es) (c[d := v]) = 1 * of_int v ^ 0"
      by simp
    then show ?thesis by blast
  next
    case (Cons v0 c')
    show ?thesis
    proof (cases d)
      case 0
      with Cons have "\<forall>v. monomial_eval (e0 # es) (c[d := v]) = monomial_eval es c' * of_int v ^ e0"
        by simp
      moreover have "e0 \<le> sum_list (e0 # es)"
        by simp
      ultimately show ?thesis by blast
    next
      case (Suc d')
      from Cons.IH [of c' d'] obtain M e where
        e: "e \<le> sum_list es" and M: "\<forall>v. monomial_eval es (c'[d' := v]) = M * of_int v ^ e"
        by blast
      from Cons Suc M
      have "\<forall>v. monomial_eval (e0 # es) (c[d := v]) = (of_int v0 ^ e0 * M) * of_int v ^ e"
        by simp
      moreover have "e \<le> sum_list (e0 # es)"
        using e by simp
      ultimately show ?thesis by blast
    qed
  qed
qed

lemma stencil_power:
  assumes "k < 5" and "e < k"
  shows "sum_list (map (\<lambda>s. snd s * (y + of_int (fst s)) ^ e) (stencil k)) = (0 :: real)"
proof -
  from assms have "k = 1 \<or> k = 2 \<or> k = 3 \<or> k = 4"
    by arith
  moreover from assms have "e = 0 \<or> e = 1 \<or> e = 2 \<or> e = 3"
    by arith
  ultimately show ?thesis
    using assms(2)
    by (auto simp: stencil_def power2_eq_square power3_eq_cube algebra_simps)
qed

lemma stencil_offsets:
  "k < 5 \<Longrightarrow> s \<in> set (stencil k) \<Longrightarrow> 0 \<le> fst s \<and> fst s \<le> int k"
  by (auto simp: stencil_def split: if_splits)

lemma stencil_polynomial:
  assumes "k < 5" and "degree_below k p"
  shows "sum_list (map (\<lambda>s. snd s * poly_eval p (c[d := y + fst s])) (stencil k)) = 0"
  using assms(2)
proof (induction p)
  case Nil
  show ?case by (simp add: poly_eval_def)
next
  case (Cons m p)
  obtain M e where e: "e \<le> sum_list (snd m)"
    and M: "\<forall>v. monomial_eval (snd m) (c[d := v]) = M * of_int v ^ e"
    using monomial_eval_update [of "snd m" c d] by blast
  have "e < k"
    using e Cons.prems by (simp add: degree_below_def)
  have tail: "sum_list (map (\<lambda>s. snd s * poly_eval p (c[d := y + fst s])) (stencil k)) = 0"
    using Cons.prems by (intro Cons.IH) (simp add: degree_below_def)
  have "sum_list (map (\<lambda>s. snd s * poly_eval (m # p) (c[d := y + fst s])) (stencil k))
      = sum_list (map (\<lambda>s. (snd s * (of_int y + of_int (fst s)) ^ e) * (fst m * M)
                          + snd s * poly_eval p (c[d := y + fst s])) (stencil k))"
    by (rule arg_cong [where f = sum_list], rule map_cong)
       (simp_all add: poly_eval_def M algebra_simps)
  also have "\<dots> = sum_list (map (\<lambda>s. snd s * (of_int y + of_int (fst s)) ^ e) (stencil k))
                    * (fst m * M)
                  + sum_list (map (\<lambda>s. snd s * poly_eval p (c[d := y + fst s])) (stencil k))"
    by (simp only: sum_list_addf sum_list_mult_const)
  also have "\<dots> = 0"
    using stencil_power [OF assms(1) \<open>e < k\<close>, of "of_int y"] tail by simp
  finally show ?case .
qed

section \<open>The null space of the model rows\<close>

lemma ball_upto_5:
  "(\<forall>j \<in> {0..<5::nat}. P j) = (P 0 \<and> P 1 \<and> P 2 \<and> P 3 \<and> P 4)"
proof -
  have "{0..<5::nat} = {0, 1, 2, 3, 4}"
    by auto
  then show ?thesis by simp
qed

lemma add_model_constraint_only:
  assumes "only_model k weights"
  shows "add_model_constraint field weights coordinate index d =
           field\<lparr>eq :=
             (if 0 \<le> coordinate ! d \<and> coordinate ! d + int k < sizes field ! d
              then add_equation (eq field) (model_weights weights ! k) 0
                     (map (\<lambda>s. (index + fst s * strides field ! d, snd s)) (stencil k))
              else eq field)\<rparr>"
proof -
  have eta: "field\<lparr>eq := eq field\<rparr> = field"
    by simp
  from assms have "k = 0 \<or> k = 1 \<or> k = 2 \<or> k = 3 \<or> k = 4"
    by (auto simp: only_model_def)
  then show ?thesis
    using assms
    by (elim disjE)
       (simp_all add: only_model_def ball_upto_5 model_weights_def add_model_constraint_def
          stencil_def Let_def)
qed

lemma filter_nonzero_sum:
  "sum_list (map (\<lambda>p. snd p * w * X p) (filter (\<lambda>p. snd p \<noteq> 0) pairs))
     = w * sum_list (map (\<lambda>p. snd p * X p) pairs)"
  for w :: real
  by (induction pairs) (simp_all add: algebra_simps)

lemma zero_residual_add_equation:
  assumes "row_dense e" and "zero_residual x e"
    and "sum_list (map (\<lambda>p. snd p * x ! nat (fst p)) pairs) = 0"
  shows "zero_residual x (add_equation e w 0 pairs)"
proof (cases "w = 0")
  case True
  with assms(2) show ?thesis by (simp add: add_equation_def)
next
  case False
  let ?n = "length (rhs e)"
  let ?new = "map (\<lambda>p. \<lparr>row = int ?n, col = fst p, val = snd p * w\<rparr>)
                (filter (\<lambda>p. snd p \<noteq> 0) pairs)"
  have old_rows: "filter (\<lambda>t. row t = int ?n) (triplets e) = []"
    using assms(1) by (auto simp: row_dense_def filter_empty_conv)
  have new_row: "filter (\<lambda>t. row t = int ?n) ?new = ?new"
    by (simp add: filter_id_conv)
  have other_rows: "filter (\<lambda>t. row t = int r) ?new = []" if "r < ?n" for r
    using that by (simp add: filter_empty_conv)
  have last_row: "residual (triplets e @ ?new) x (rhs e @ [0]) ?n = 0"
    using filter_nonzero_sum [of w "\<lambda>p. x ! nat (fst p)" pairs] assms(3)
    by (simp add: residual_def old_rows new_row comp_def)
  have first_rows: "residual (triplets e @ ?new) x (rhs e @ [0]) r = 0" if "r < ?n" for r
    using that assms(2) by (simp add: residual_def other_rows nth_append zero_residual_def)
  have "residual (triplets e @ ?new) x (rhs e @ [0]) r = 0" if "r < Suc ?n" for r
    using that first_rows last_row by (cases "r = ?n") simp_all
  then have grown: "zero_residual x \<lparr>triplets = triplets e @ ?new, rhs = rhs e @ [0]\<rparr>"
    by (simp add: zero_residual_def)
  have same: "zero_residual x \<lparr>triplets = triplets e, rhs = rhs e\<rparr>"
    using assms(2) by (simp add: LinearEquation_eta)
  show ?thesis
  proof (cases "\<forall>p \<in> set pairs. snd p = 0")
    case True
    then have "filter (\<lambda>p. snd p \<noteq> 0) pairs = []"
      by (simp add: filter_empty_conv)
    with True False same show ?thesis
      by (simp add: add_equation_unfold)
  next
    case nonzero: False
    with False grown show ?thesis
      by (auto simp: add_equation_unfold)
  qed
qed

lemma foldl_invariant_set:
  assumes "\<And>s x. x \<in> set xs \<Longrightarrow> P s \<Longrightarrow> P (f s x)" and "P s"
  shows "P (foldl f s xs)"
  using assms by (induction xs arbitrary: s) simp_all

lemma foldl_mult_prod_list: "foldl (\<lambda>n s. n * s) a szs = a * prod_list (szs :: int list)"
  by (induction szs arbitrary: a) (simp_all add: mult.assoc)

lemma sampled_stencil:
  assumes sizes: "\<forall>s \<in> set szs. 1 \<le> s" and k: "k < 5" and p: "degree_below k p"
    and index: "index < nat (prod_list szs)" and d: "d < length szs"
    and fits: "coordinate_from_index_loop szs (int index) ! d + int k < szs ! d"
  shows "sum_list (map (\<lambda>q. snd q * sample_polynomial szs p ! nat (fst q))
           (map (\<lambda>s. (int index + fst s * strides_of szs ! d, snd s)) (stencil k))) = 0"
proof -
  let ?c = "coordinate_from_index_loop szs (int index)"
  have idx: "0 \<le> int index" "int index < prod_list szs"
    using index by simp_all
  have pointwise:
    "snd s * sample_polynomial szs p ! nat (int index + fst s * strides_of szs ! d)
      = snd s * poly_eval p (?c[d := ?c ! d + fst s])"
    if "s \<in> set (stencil k)" for s
  proof -
    have j: "0 \<le> fst s" "fst s \<le> int k"
      using stencil_offsets [OF k that] by simp_all
    then have "?c ! d + fst s < szs ! d"
      using fits by simp
    then have shift: "0 \<le> int index + fst s * strides_of szs ! d"
      "int index + fst s * strides_of szs ! d < prod_list szs"
      "coordinate_from_index_loop szs (int index + fst s * strides_of szs ! d)
         = ?c[d := ?c ! d + fst s]"
      using coordinate_shift [OF sizes idx d j(1)] by simp_all
    have "nat (int index + fst s * strides_of szs ! d) < nat (prod_list szs)"
      using shift(1,2) by simp
    then have "sample_polynomial szs p ! nat (int index + fst s * strides_of szs ! d)
        = poly_eval p (coord_of szs (int index + fst s * strides_of szs ! d))"
      using shift(1) by (simp add: sample_polynomial_def)
    also have "coord_of szs (int index + fst s * strides_of szs ! d)
        = coordinate_from_index_loop szs (int index + fst s * strides_of szs ! d)"
      using shift(1) sizes by (simp add: coordinate_from_index_loop_eq)
    finally show ?thesis
      by (simp only: shift(3))
  qed
  have maps:
    "map (\<lambda>s. snd s * sample_polynomial szs p ! nat (int index + fst s * strides_of szs ! d))
       (stencil k)
     = map (\<lambda>s. snd s * poly_eval p (?c[d := ?c ! d + fst s])) (stencil k)"
    by (rule map_cong [OF refl]) (rule pointwise)
  have "sum_list (map (\<lambda>q. snd q * sample_polynomial szs p ! nat (fst q))
           (map (\<lambda>s. (int index + fst s * strides_of szs ! d, snd s)) (stencil k)))
      = sum_list (map (\<lambda>s. snd s
            * sample_polynomial szs p ! nat (int index + fst s * strides_of szs ! d))
          (stencil k))"
    by (simp add: comp_def)
  also have "\<dots> = sum_list (map (\<lambda>s. snd s * poly_eval p (?c[d := ?c ! d + fst s])) (stencil k))"
    by (simp only: maps)
  also have "\<dots> = 0"
    using k p by (rule stencil_polynomial)
  finally show ?thesis .
qed

lemma model_invariant_model_constraint:
  assumes sizes: "\<forall>s \<in> set szs. 1 \<le> s" and only: "only_model k weights"
    and p: "degree_below k p"
    and index: "index < nat (prod_list szs)" and d: "d < length szs"
    and inv: "model_invariant szs (sample_polynomial szs p) field"
  shows "model_invariant szs (sample_polynomial szs p)
           (add_model_constraint field weights (coordinate_from_index_loop szs (int index))
              (int index) d)"
proof -
  let ?c = "coordinate_from_index_loop szs (int index)"
  let ?pairs = "map (\<lambda>s. (int index + fst s * strides_of szs ! d, snd s)) (stencil k)"
  have k: "k < 5"
    using only by (simp add: only_model_def)
  show ?thesis
  proof (cases "0 \<le> ?c ! d \<and> ?c ! d + int k < szs ! d")
    case True
    then have "sum_list (map (\<lambda>q. snd q * sample_polynomial szs p ! nat (fst q)) ?pairs) = 0"
      using sampled_stencil [OF sizes k p index d] by simp
    then have "zero_residual (sample_polynomial szs p)
        (add_equation (eq field) (model_weights weights ! k) 0 ?pairs)"
      using inv by (intro zero_residual_add_equation) (simp_all add: model_invariant_def)
    moreover have "row_dense (add_equation (eq field) (model_weights weights ! k) 0 ?pairs)"
      using inv by (intro row_dense_add_equation) (simp add: model_invariant_def)
    ultimately show ?thesis
      using True inv
      by (simp add: add_model_constraint_only [OF only] model_invariant_def)
  next
    case False
    with inv show ?thesis
      by (auto simp: add_model_constraint_only [OF only] model_invariant_def)
  qed
qed

lemma model_invariant_cell:
  assumes sizes: "\<forall>s \<in> set szs. 1 \<le> s" and only: "only_model k weights"
    and p: "degree_below k p"
    and index: "index < nat (prod_list szs)"
    and inv: "model_invariant szs (sample_polynomial szs p) field"
  shows "model_invariant szs (sample_polynomial szs p)
           (add_field_constraints_cell weights field index)"
proof -
  have szs: "sizes field = szs"
    using inv by (simp add: model_invariant_def)
  have "model_invariant szs (sample_polynomial szs p)
          (foldl (\<lambda>f d. add_model_constraint f weights
                     (coordinate_from_index_loop szs (int index)) (int index) d)
             field [0..<length szs])"
  proof (rule foldl_invariant_set [where P = "model_invariant szs (sample_polynomial szs p)"])
    fix f d
    assume "d \<in> set [0..<length szs]"
      and "model_invariant szs (sample_polynomial szs p) f"
    then show "model_invariant szs (sample_polynomial szs p)
        (add_model_constraint f weights (coordinate_from_index_loop szs (int index))
           (int index) d)"
      using sizes only p index by (intro model_invariant_model_constraint) simp_all
  qed (rule inv)
  then show ?thesis
    by (simp add: add_field_constraints_cell_def coordinate_from_index_def szs Let_def)
qed

text \<open>
  C7. Let the lattice have sizes \<open>\<ge> 1\<close> and let only \<open>model_k\<close> be positive, for a \<open>k\<close>
  in \<open>{0, ..., 4}\<close> (the other model weights and the gradient smoothness are zero). Then
  the field obtained by sampling any polynomial of degree below \<open>k\<close> at the lattice
  coordinates has zero residual on every row that \<^verbatim>\<open>add_field_constraints\<close> assembles
  (in exact arithmetic).
\<close>

theorem model_null_space:
  assumes "\<forall>s \<in> set szs. 1 \<le> s" and "only_model k weights" and "degree_below k p"
  shows "zero_residual (sample_polynomial szs p)
           (eq (add_field_constraints (new_field szs) weights))"
proof -
  let ?x = "sample_polynomial szs p"
  have start: "model_invariant szs ?x (new_field szs)"
    by (simp add: model_invariant_def new_field_def row_dense_def zero_residual_def
          empty_equation_def)
  have "model_invariant szs ?x
          (foldl (add_field_constraints_cell weights) (new_field szs) [0..<nat (prod_list szs)])"
  proof (rule foldl_invariant_set [where P = "model_invariant szs ?x"])
    fix f index
    assume "index \<in> set [0..<nat (prod_list szs)]" and "model_invariant szs ?x f"
    then show "model_invariant szs ?x (add_field_constraints_cell weights f index)"
      using assms by (intro model_invariant_cell) simp_all
  qed (rule start)
  then show ?thesis
    by (simp add: add_field_constraints_def foldl_mult_prod_list new_field_def
          model_invariant_def Let_def)
qed

theorem model_null_space_witness:
  "length (rhs (eq (add_field_constraints (new_field [4]) (S1_weights\<lparr>data_pos := 0, model_2 := 1\<rparr>))))
     = 2
 \<and> sample_polynomial [4] [(3, []), (2, [1])] = [3, 5, 7, 9]
 \<and> zero_residual (sample_polynomial [4] [(3, []), (2, [1])])
      (eq (add_field_constraints (new_field [4]) (S1_weights\<lparr>data_pos := 0, model_2 := 1\<rparr>)))"
proof -
  have "length (rhs (eq (add_field_constraints (new_field [4])
          (S1_weights\<lparr>data_pos := 0, model_2 := 1\<rparr>)))) = 2"
    by code_simp
  moreover have "sample_polynomial [4] [(3, []), (2, [1])] = [3, 5, 7, 9]"
    by code_simp
  moreover have "only_model 2 (S1_weights\<lparr>data_pos := 0, model_2 := 1\<rparr>)"
    by (simp add: only_model_def model_weights_def S1_weights_def ball_upto_5)
  moreover have "degree_below 2 [(3, []), (2, [1])]"
    by (simp add: degree_below_def)
  ultimately show ?thesis
    using model_null_space [of "[4]" 2 "S1_weights\<lparr>data_pos := 0, model_2 := 1\<rparr>"
        "[(3, []), (2, [1])]"]
    by simp
qed

end
